theory Spec2Isabelle
  imports Complex_Main "HOL-Library.Signed_Division" "HOL-Library.Log_Nat"
begin

section \<open>Multi-dimensional array store (AbstractMultiArray)\<close>

text \<open>
  The C++ type \<open>int\<close> is modelled by \<^typ>\<open>int\<close> with the wrap-around of 32-bit two's
  complement arithmetic written out (\<open>wrap32\<close>): signed overflow is undefined behaviour in
  C++, and the wrapped result is what the compiled code computes. Integer division and
  remainder are the truncating ones of C++ (\<open>sdiv\<close>, \<open>smod\<close>). A \<open>std::size_t\<close> field holds
  the \<open>int\<close> assigned to it modulo \<open>2^64\<close>. Reads the code performs outside a vector are
  errors of the model (\<open>OutOfRange\<close>), and so is an \<open>int\<close> division that C++ leaves undefined
  and the usual targets trap: by zero, or of the least \<open>int\<close> by \<open>- 1\<close> (\<open>DivisionError\<close>).
\<close>

datatype error = OutOfRange | AlreadySolved | DivisionError | NotFinite

definition wrap32 :: "int \<Rightarrow> int" where
  "wrap32 x = (x + 2147483648) mod 4294967296 - 2147483648"

definition mul32 :: "int \<Rightarrow> int \<Rightarrow> int" where
  "mul32 x y = wrap32 (x * y)"

definition add32 :: "int \<Rightarrow> int \<Rightarrow> int" where
  "add32 x y = wrap32 (x + y)"

definition size_t_of_int :: "int \<Rightarrow> int" where
  "size_t_of_int x = x mod 18446744073709551616"

record AbstractMultiArray =
  m_id :: int
  m_number_of_dimensions :: nat
  m_number_of_elements :: int
  m_max_digits :: nat
  m_shape :: "int list"
  m_strides :: "int list"

text \<open>\<open>std::partial_sum(first, last, out, op)\<close>: the first output is the first input, every
  later output is \<open>op\<close> of the previous output and the next input.\<close>

fun partial_sum_from :: "('a \<Rightarrow> 'a \<Rightarrow> 'a) \<Rightarrow> 'a \<Rightarrow> 'a list \<Rightarrow> 'a list" where
  "partial_sum_from f acc [] = []"
| "partial_sum_from f acc (x # xs) = f acc x # partial_sum_from f (f acc x) xs"

fun partial_sum :: "('a \<Rightarrow> 'a \<Rightarrow> 'a) \<Rightarrow> 'a list \<Rightarrow> 'a list" where
  "partial_sum f [] = []"
| "partial_sum f (x # xs) = x # partial_sum_from f x xs"

text \<open>\<open>compute_strides\<close>: \<open>m_strides.at(n - 1) = 1\<close> throws on an empty shape; then the
  partial products of the reversed shape without its last element (\<open>shape[0]\<close>) are
  written into the reversed strides from position 1 on; \<open>std::multiplies<int>\<close> is the
  multiplication of \<open>int\<close>.\<close>

definition compute_strides :: "int list \<Rightarrow> error + int list" where
  "compute_strides shape =
     (if shape = [] then Inl OutOfRange
      else Inr (rev (1 # partial_sum mul32 (rev (tl shape)))))"

text \<open>\<open>std::to_string(int)\<close>: decimal digits, with a leading minus sign for a negative
  number.\<close>

definition digit_char :: "nat \<Rightarrow> char" where
  "digit_char d =
     (if d = 0 then CHR ''0'' else if d = 1 then CHR ''1'' else if d = 2 then CHR ''2''
      else if d = 3 then CHR ''3'' else if d = 4 then CHR ''4'' else if d = 5 then CHR ''5''
      else if d = 6 then CHR ''6'' else if d = 7 then CHR ''7'' else if d = 8 then CHR ''8''
      else CHR ''9'')"

fun digits_of_nat :: "nat \<Rightarrow> string" where
  "digits_of_nat n =
     (if n < 10 then [digit_char n] else digits_of_nat (n div 10) @ [digit_char (n mod 10)])"

declare digits_of_nat.simps [simp del]

definition to_string :: "int \<Rightarrow> string" where
  "to_string i = (if i < 0 then CHR ''-'' # digits_of_nat (nat (- i)) else digits_of_nat (nat i))"

text \<open>\<open>utility::max\<close> of a vector: its largest element (the vector is not empty where
  the model calls it).\<close>

definition utility_max :: "'a::linorder list \<Rightarrow> 'a" where
  "utility_max xs = foldl max (hd xs) (tl xs)"

text \<open>The three constructors. The product of the shape is accumulated in \<open>int\<close> and
  stored into the \<open>std::size_t\<close> field.\<close>

definition AbstractMultiArray_scalar :: "int \<Rightarrow> error + AbstractMultiArray" where
  "AbstractMultiArray_scalar a_ID =
     (case compute_strides [1] of
        Inl e \<Rightarrow> Inl e
      | Inr strides \<Rightarrow>
          Inr \<lparr>m_id = a_ID, m_number_of_dimensions = 1, m_number_of_elements = 1,
               m_max_digits = 1, m_shape = [1], m_strides = strides\<rparr>)"

definition AbstractMultiArray_1d :: "int \<Rightarrow> int \<Rightarrow> error + AbstractMultiArray" where
  "AbstractMultiArray_1d a_ID a_NUMBER_OF_ELEMENTS =
     (case compute_strides [a_NUMBER_OF_ELEMENTS] of
        Inl e \<Rightarrow> Inl e
      | Inr strides \<Rightarrow>
          Inr \<lparr>m_id = a_ID, m_number_of_dimensions = 1,
               m_number_of_elements = size_t_of_int a_NUMBER_OF_ELEMENTS,
               m_max_digits = length (to_string a_NUMBER_OF_ELEMENTS),
               m_shape = [a_NUMBER_OF_ELEMENTS], m_strides = strides\<rparr>)"

definition AbstractMultiArray_nd :: "int \<Rightarrow> int list \<Rightarrow> error + AbstractMultiArray" where
  "AbstractMultiArray_nd a_ID a_SHAPE =
     (case compute_strides a_SHAPE of
        Inl e \<Rightarrow> Inl e
      | Inr strides \<Rightarrow>
          Inr \<lparr>m_id = a_ID, m_number_of_dimensions = length a_SHAPE,
               m_number_of_elements = size_t_of_int (foldl mul32 1 a_SHAPE),
               m_max_digits = length (to_string (utility_max a_SHAPE)),
               m_shape = a_SHAPE, m_strides = strides\<rparr>)"

text \<open>\<open>std::inner_product(first1, last1, first2, init)\<close> with the \<open>int\<close> initial value 0:
  the sum is accumulated in \<open>int\<close>; the second range must be at least as long as the
  first.\<close>

fun inner_product :: "int list \<Rightarrow> int list \<Rightarrow> int \<Rightarrow> error + int" where
  "inner_product [] ys init = Inr init"
| "inner_product (x # xs) [] init = Inl OutOfRange"
| "inner_product (x # xs) (y # ys) init = inner_product xs ys (add32 init (mul32 x y))"

definition flat_index :: "AbstractMultiArray \<Rightarrow> int list \<Rightarrow> error + int" where
  "flat_index a a_MULTI_DIMENSIONAL_INDEX =
     inner_product a_MULTI_DIMENSIONAL_INDEX (m_strides a) 0"

text \<open>The loop of \<open>multi_dimensional_index\<close> over \<open>i = 0 .. m_number_of_dimensions - 1\<close>,
  reading \<open>m_strides[i]\<close>.\<close>

fun multi_dimensional_index_loop :: "nat \<Rightarrow> int list \<Rightarrow> int \<Rightarrow> error + int list" where
  "multi_dimensional_index_loop 0 strides remain = Inr []"
| "multi_dimensional_index_loop (Suc n) [] remain = Inl OutOfRange"
| "multi_dimensional_index_loop (Suc n) (s # strides) remain =
     (if s = 0 \<or> (remain = - 2147483648 \<and> s = - 1) then Inl DivisionError
      else case multi_dimensional_index_loop n strides (remain smod s) of
             Inl e \<Rightarrow> Inl e
           | Inr rest \<Rightarrow> Inr (wrap32 (remain sdiv s) # rest))"

definition multi_dimensional_index :: "AbstractMultiArray \<Rightarrow> int \<Rightarrow> error + int list" where
  "multi_dimensional_index a a_FLAT_INDEX =
     multi_dimensional_index_loop (m_number_of_dimensions a) (m_strides a) a_FLAT_INDEX"

text \<open>The partial products of the tail of a shape, the closed form of the strides.\<close>

fun suffix_products :: "int list \<Rightarrow> int list" where
  "suffix_products [] = []"
| "suffix_products (s # ss) = prod_list ss # suffix_products ss"

subsection \<open>Index labels\<close>

text \<open>\<open>utility::to_string(value, "%Nd")\<close> is \<open>snprintf\<close> with a minimum field width:
  the decimal text of the value, right-justified, filled with blanks on the left.\<close>

definition format_d :: "nat \<Rightarrow> int \<Rightarrow> string" where
  "format_d width i = replicate (width - length (to_string i)) CHR '' '' @ to_string i"

text \<open>The loop of \<open>indices_label\<close>: every index is appended in the format
  \<open>"%" + std::to_string(m_max_digits) + "d"\<close>, followed by \<open>", "\<close> unless it is the last.\<close>

fun indices_label_loop :: "nat \<Rightarrow> int list \<Rightarrow> string" where
  "indices_label_loop width [] = []"
| "indices_label_loop width [i] = format_d width i"
| "indices_label_loop width (i # j # rest) =
     format_d width i @ '', '' @ indices_label_loop width (j # rest)"

definition indices_label :: "AbstractMultiArray \<Rightarrow> int \<Rightarrow> error + string" where
  "indices_label a a_FLAT_INDEX =
     (if m_number_of_elements a = 1 then Inr []
      else case multi_dimensional_index a a_FLAT_INDEX of
             Inl e \<Rightarrow> Inl e
           | Inr idx \<Rightarrow> Inr (''['' @ indices_label_loop (m_max_digits a) idx @ '']''))"

text \<open>Modelled from the spec: \<open>Model::setup_unique_name\<close> is not among the sources. By the
  spec (4.1, stage 2) and the test \<open>TestModel.setup_unique_name\<close>, every element of a
  proxy whose name the user has not set (the name is still empty) is named by the name of
  the proxy followed by \<open>indices_label\<close> of its flat index; a name the user has set is
  kept. A proxy is an \<open>AbstractMultiArray\<close> with a base name and one name per element.\<close>

record NamedProxy =
  proxy_array :: AbstractMultiArray
  proxy_name :: string
  element_names :: "string list"

fun setup_unique_name_loop :: "AbstractMultiArray \<Rightarrow> string \<Rightarrow> int \<Rightarrow> string list \<Rightarrow> error + string list" where
  "setup_unique_name_loop a base j [] = Inr []"
| "setup_unique_name_loop a base j (n # ns) =
     (case (if n = [] then map_sum id ((@) base) (indices_label a j) else Inr n) of
        Inl e \<Rightarrow> Inl e
      | Inr n' \<Rightarrow>
          (case setup_unique_name_loop a base (j + 1) ns of
             Inl e \<Rightarrow> Inl e
           | Inr ns' \<Rightarrow> Inr (n' # ns')))"

definition setup_unique_name :: "NamedProxy \<Rightarrow> error + NamedProxy" where
  "setup_unique_name p =
     (case setup_unique_name_loop (proxy_array p) (proxy_name p) 0 (element_names p) of
        Inl e \<Rightarrow> Inl e
      | Inr ns \<Rightarrow> Inr (p\<lparr>element_names := ns\<rparr>))"

text \<open>The label as the naming convention words it, with the fill character left open: the
  indices, each written in decimal and filled on the left to the number of digits of the
  largest shape entry, separated by a comma and a blank, in brackets.\<close>

fun join_comma :: "string list \<Rightarrow> string" where
  "join_comma [] = []"
| "join_comma [s] = s"
| "join_comma (s # t # rest) = s @ '', '' @ join_comma (t # rest)"

definition pad_left :: "char \<Rightarrow> nat \<Rightarrow> string \<Rightarrow> string" where
  "pad_left c width s = replicate (width - length s) c @ s"

definition label_spec :: "char \<Rightarrow> int list \<Rightarrow> int list \<Rightarrow> string" where
  "label_spec c shape idx =
     ''['' @ join_comma (map (\<lambda>i. pad_left c (length (to_string (utility_max shape))) (to_string i)) idx) @ '']''"

text \<open>Every index of a label is printed at the width of the largest shape entry.\<close>

definition fixed_width :: "int list \<Rightarrow> int list \<Rightarrow> bool" where
  "fixed_width shape idx =
     list_all (\<lambda>i. length (pad_left CHR '' '' (length (to_string (utility_max shape))) (to_string i))
                   = length (to_string (utility_max shape))) idx"

section \<open>Double-precision arithmetic\<close>


definition round_half_even :: "real \<Rightarrow> int" where
  "round_half_even y =
     (let n = \<lfloor>y\<rfloor>; d = y - real_of_int n
      in if d < 1 / 2 then n else if 1 / 2 < d then n + 1 else if even n then n else n + 1)"

definition pow2 :: "int \<Rightarrow> real" where
  "pow2 e = (if 0 \<le> e then 2 ^ nat e else 1 / 2 ^ nat (- e))"

definition binary_exponent :: "real \<Rightarrow> int" where
  "binary_exponent x =
     (if 1 \<le> \<bar>x\<bar> then bitlen \<lfloor>\<bar>x\<bar>\<rfloor> - 1 else - bitlen (\<lceil>1 / \<bar>x\<bar>\<rceil> - 1))"

definition ulp :: "real \<Rightarrow> real" where
  "ulp x = pow2 (max (binary_exponent x) (- 1022) - 52)"

definition round_double :: "real \<Rightarrow> real" where
  "round_double x = (if x = 0 then 0 else real_of_int (round_half_even (x / ulp x)) * ulp x)"


section \<open>Memory\<close>

text \<open>A \<open>ValueProxy\<close> is a multi-dimensional array of values; the solver reads its
  \<open>id()\<close> and its \<open>flat_indexed_values()\<close>. A variable is referred to by the pair of its
  \<open>proxy_index()\<close> and \<open>flat_index()\<close>; a move is its list of alterations (variable and
  new value) and the constraints it touches.\<close>

record 'a ValueProxy =
  proxy_id :: int
  flat_indexed_values :: "'a list"

type_synonym variable_ref = "int \<times> int"

definition proxy_index :: "variable_ref \<Rightarrow> int" where
  "proxy_index v = fst v"

definition variable_flat_index :: "variable_ref \<Rightarrow> int" where
  "variable_flat_index v = snd v"

record Move =
  alterations :: "(variable_ref \<times> int) list"
  related_constraint_ptrs :: "nat list"

definition INITIAL_LAST_UPDATE_ITERATION :: int where
  "INITIAL_LAST_UPDATE_ITERATION = - 1000"

record Memory =
  m_variable_names :: "string list"
  m_last_update_iterations :: "int ValueProxy list"
  m_update_counts :: "int ValueProxy list"
  m_total_update_counts :: int

definition Memory_initialize :: "Memory" where
  "Memory_initialize =
     \<lparr>m_variable_names = [], m_last_update_iterations = [], m_update_counts = [],
      m_total_update_counts = 0\<rparr>"

text \<open>Modelled from the spec: \<open>Model::generate_variable_parameter_proxies\<close> is not among
  the sources. By the test of that name it returns one \<open>ValueProxy\<close> for every variable
  proxy of the model, with the same id and number of elements, every value being the
  fill value. The model is given by the names and the arrays of its variable proxies.\<close>

definition generate_variable_parameter_proxies :: "AbstractMultiArray list \<Rightarrow> 'a \<Rightarrow> 'a ValueProxy list" where
  "generate_variable_parameter_proxies proxies v =
     map (\<lambda>a. \<lparr>proxy_id = m_id a,
               flat_indexed_values = replicate (nat (m_number_of_elements a)) v\<rparr>) proxies"

definition Memory_setup :: "string list \<Rightarrow> AbstractMultiArray list \<Rightarrow> Memory" where
  "Memory_setup variable_names variable_proxies =
     Memory_initialize
       \<lparr>m_last_update_iterations :=
          generate_variable_parameter_proxies variable_proxies INITIAL_LAST_UPDATE_ITERATION,
        m_update_counts := generate_variable_parameter_proxies variable_proxies 0,
        m_variable_names := variable_names\<rparr>"

text \<open>\<open>proxies[proxy_index][flat_index]\<close>: the element is read and written in place; an
  index outside the vectors is an error of the model.\<close>

definition in_range :: "'a ValueProxy list \<Rightarrow> int \<Rightarrow> int \<Rightarrow> bool" where
  "in_range ps p f =
     (0 \<le> p \<and> nat p < length ps \<and> 0 \<le> f \<and> nat f < length (flat_indexed_values (ps ! nat p)))"

definition get_value :: "'a ValueProxy list \<Rightarrow> int \<Rightarrow> int \<Rightarrow> 'a" where
  "get_value ps p f = flat_indexed_values (ps ! nat p) ! nat f"

definition set_value :: "'a ValueProxy list \<Rightarrow> int \<Rightarrow> int \<Rightarrow> 'a \<Rightarrow> 'a ValueProxy list" where
  "set_value ps p f v =
     ps[nat p := (ps ! nat p)\<lparr>flat_indexed_values := (flat_indexed_values (ps ! nat p))[nat f := v]\<rparr>]"

text \<open>\<open>bias\<close>: the loops over the proxies \<open>i < m_variable_names.size()\<close> and over the
  elements of \<open>m_update_counts[i]\<close>. \<open>bias_element\<close> is the body of the inner loop: the
  count and the total are converted to \<open>double\<close>, and the quotient, the square and the sum
  are each rounded. With a total of zero the quotient is a division by \<open>0.0\<close>, whose result
  is an infinity or not a number, and so is the value returned once an element has been
  visited (\<open>NotFinite\<close>).\<close>

definition bias_element :: "int \<Rightarrow> real \<Rightarrow> int \<Rightarrow> real" where
  "bias_element total_update_counts result c =
     (let frequency = round_double (round_double (real_of_int c)
                                    / round_double (real_of_int total_update_counts))
      in round_double (result + round_double (frequency * frequency)))"

definition bias_proxy :: "int \<Rightarrow> real \<Rightarrow> int ValueProxy \<Rightarrow> real" where
  "bias_proxy total_update_counts result update_count =
     foldl (bias_element total_update_counts) result (flat_indexed_values update_count)"

definition bias :: "Memory \<Rightarrow> error + real" where
  "bias M =
     (if length (m_update_counts M) < length (m_variable_names M) then Inl OutOfRange
      else if m_total_update_counts M = 0
              \<and> concat (map flat_indexed_values
                          (take (length (m_variable_names M)) (m_update_counts M))) \<noteq> []
      then Inl NotFinite
      else Inr (foldl (bias_proxy (m_total_update_counts M)) 0
                  (take (length (m_variable_names M)) (m_update_counts M))))"

text \<open>\<open>update(a_MOVE, a_ITERATION)\<close>: one step for every alteration of the move, in
  order.\<close>

definition update_alteration :: "Memory \<Rightarrow> variable_ref \<Rightarrow> int \<Rightarrow> error + Memory" where
  "update_alteration M v a_ITERATION =
     (let p = proxy_index v; f = variable_flat_index v
      in if \<not> in_range (m_last_update_iterations M) p f then Inl OutOfRange
         else if \<not> in_range (m_update_counts M) p f then Inl OutOfRange
         else Inr (M\<lparr>m_last_update_iterations :=
                       set_value (m_last_update_iterations M) p f a_ITERATION,
                     m_update_counts :=
                       set_value (m_update_counts M) p f (get_value (m_update_counts M) p f + 1),
                     m_total_update_counts := m_total_update_counts M + 1\<rparr>))"

fun update_loop :: "Memory \<Rightarrow> (variable_ref \<times> int) list \<Rightarrow> int \<Rightarrow> error + Memory" where
  "update_loop M [] a_ITERATION = Inr M"
| "update_loop M (alteration # rest) a_ITERATION =
     (case update_alteration M (fst alteration) a_ITERATION of
        Inl e \<Rightarrow> Inl e
      | Inr M' \<Rightarrow> update_loop M' rest a_ITERATION)"

definition update :: "Memory \<Rightarrow> Move \<Rightarrow> int \<Rightarrow> error + Memory" where
  "update M a_MOVE a_ITERATION = update_loop M (alterations a_MOVE) a_ITERATION"

text \<open>The state the memory is in after \<open>setup\<close> and any number of updates: one row of
  counts per variable name, no negative count, the total is the sum of the counts, and
  the two tables have the same row lengths.\<close>

definition all_counts :: "Memory \<Rightarrow> int list" where
  "all_counts M = concat (map flat_indexed_values (m_update_counts M))"


definition Memory_invariant :: "Memory \<Rightarrow> bool" where
  "Memory_invariant M =
     (length (m_variable_names M) = length (m_update_counts M)
      \<and> list_all (\<lambda>c. 0 \<le> c) (all_counts M)
      \<and> m_total_update_counts M = sum_list (all_counts M)
      \<and> map (\<lambda>p. length (flat_indexed_values p)) (m_last_update_iterations M)
          = map (\<lambda>p. length (flat_indexed_values p)) (m_update_counts M))"

text \<open>The ids and the numbers of elements of a list of proxies.\<close>

definition proxy_shapes :: "'a ValueProxy list \<Rightarrow> (int \<times> nat) list" where
  "proxy_shapes ps = map (\<lambda>p. (proxy_id p, length (flat_indexed_values p))) ps"

section \<open>Incumbent holder\<close>

text \<open>The stored incumbent objectives are \<open>double\<close>s that start at \<open>HUGE_VALF\<close>, the
  positive infinity; the objectives of a score are finite and modelled by reals. The
  comparison \<open>score < stored\<close> of the code is \<open>less_than_stored\<close>.\<close>

datatype incumbent_objective = Finite real | HUGE_VALF

definition DEFAULT_OBJECTIVE :: incumbent_objective where
  "DEFAULT_OBJECTIVE = HUGE_VALF"

fun less_than_stored :: "real \<Rightarrow> incumbent_objective \<Rightarrow> bool" where
  "less_than_stored x HUGE_VALF = True"
| "less_than_stored x (Finite y) = (x < y)"

text \<open>The order of the stored values: everything is at most \<open>HUGE_VALF\<close>.\<close>

fun objective_le :: "incumbent_objective \<Rightarrow> incumbent_objective \<Rightarrow> bool" where
  "objective_le x HUGE_VALF = True"
| "objective_le HUGE_VALF (Finite y) = False"
| "objective_le (Finite x) (Finite y) = (x \<le> y)"

record SolutionScore =
  objective :: real
  total_violation :: real
  local_penalty :: real
  global_penalty :: real
  local_augmented_objective :: real
  global_augmented_objective :: real
  is_feasible :: bool
  is_objective_improvable :: bool
  is_constraint_improvable :: bool

text \<open>Of a \<open>Solution\<close> the solver reads the variable values, the violation values and
  the feasibility flag (\<open>is_feasible\<close> in the source).\<close>

record Solution =
  variable_value_proxies :: "int ValueProxy list"
  violation_value_proxies :: "real ValueProxy list"
  solution_is_feasible :: bool

definition STATUS_NO_UPDATED :: int where
  "STATUS_NO_UPDATED = 0"

definition STATUS_LOCAL_AUGMENTED_INCUMBENT_UPDATE :: int where
  "STATUS_LOCAL_AUGMENTED_INCUMBENT_UPDATE = 1"

definition STATUS_GLOBAL_AUGMENTED_INCUMBENT_UPDATE :: int where
  "STATUS_GLOBAL_AUGMENTED_INCUMBENT_UPDATE = 2"

definition STATUS_FEASIBLE_INCUMBENT_UPDATE :: int where
  "STATUS_FEASIBLE_INCUMBENT_UPDATE = 4"

record IncumbentHolder =
  m_found_feasible_solution :: bool
  m_local_augmented_incumbent_solution :: Solution
  m_global_augmented_incumbent_solution :: Solution
  m_feasible_incumbent_solution :: Solution
  m_local_augmented_incumbent_objective :: incumbent_objective
  m_global_augmented_incumbent_objective :: incumbent_objective
  m_feasible_incumbent_objective :: incumbent_objective
  m_local_augmented_incumbent_score :: SolutionScore
  m_global_augmented_incumbent_score :: SolutionScore
  m_feasible_incumbent_score :: SolutionScore

text \<open>\<open>initialize\<close> resets the flag and the three objectives and nothing else.\<close>

definition initialize :: "IncumbentHolder \<Rightarrow> IncumbentHolder" where
  "initialize h =
     h\<lparr>m_found_feasible_solution := False,
       m_local_augmented_incumbent_objective := DEFAULT_OBJECTIVE,
       m_global_augmented_incumbent_objective := DEFAULT_OBJECTIVE,
       m_feasible_incumbent_objective := DEFAULT_OBJECTIVE\<rparr>"

text \<open>\<open>try_update_incumbent(a_SOLUTION, a_SCORE)\<close>: the three blocks in the order of the
  source, each on the state the previous one left; the status is returned with the
  holder.\<close>

definition try_update_local :: "Solution \<Rightarrow> SolutionScore \<Rightarrow> int \<times> IncumbentHolder \<Rightarrow> int \<times> IncumbentHolder" where
  "try_update_local a_SOLUTION a_SCORE sh =
     (let status = fst sh; h = snd sh
      in if less_than_stored (local_augmented_objective a_SCORE)
              (m_local_augmented_incumbent_objective h)
         then (status + STATUS_LOCAL_AUGMENTED_INCUMBENT_UPDATE,
               h\<lparr>m_local_augmented_incumbent_solution := a_SOLUTION,
                 m_local_augmented_incumbent_score := a_SCORE,
                 m_local_augmented_incumbent_objective :=
                   Finite (local_augmented_objective a_SCORE)\<rparr>)
         else (status, h))"

definition try_update_global :: "Solution \<Rightarrow> SolutionScore \<Rightarrow> int \<times> IncumbentHolder \<Rightarrow> int \<times> IncumbentHolder" where
  "try_update_global a_SOLUTION a_SCORE sh =
     (let status = fst sh; h = snd sh
      in if less_than_stored (global_augmented_objective a_SCORE)
              (m_global_augmented_incumbent_objective h)
         then (status + STATUS_GLOBAL_AUGMENTED_INCUMBENT_UPDATE,
               h\<lparr>m_global_augmented_incumbent_solution := a_SOLUTION,
                 m_global_augmented_incumbent_score := a_SCORE,
                 m_global_augmented_incumbent_objective :=
                   Finite (global_augmented_objective a_SCORE)\<rparr>)
         else (status, h))"

definition try_update_feasible :: "Solution \<Rightarrow> SolutionScore \<Rightarrow> int \<times> IncumbentHolder \<Rightarrow> int \<times> IncumbentHolder" where
  "try_update_feasible a_SOLUTION a_SCORE sh =
     (let status = fst sh; h = snd sh
      in if is_feasible a_SCORE
         then (let h1 = h\<lparr>m_found_feasible_solution := True\<rparr>
               in if less_than_stored (objective a_SCORE) (m_feasible_incumbent_objective h1)
                  then (status + STATUS_FEASIBLE_INCUMBENT_UPDATE,
                        h1\<lparr>m_feasible_incumbent_score := a_SCORE,
                           m_feasible_incumbent_solution := a_SOLUTION,
                           m_feasible_incumbent_objective := Finite (objective a_SCORE)\<rparr>)
                  else (status, h1))
         else (status, h))"

definition try_update_incumbent :: "IncumbentHolder \<Rightarrow> Solution \<Rightarrow> SolutionScore \<Rightarrow> int \<times> IncumbentHolder" where
  "try_update_incumbent h a_SOLUTION a_SCORE =
     try_update_feasible a_SOLUTION a_SCORE
       (try_update_global a_SOLUTION a_SCORE
         (try_update_local a_SOLUTION a_SCORE (STATUS_NO_UPDATED, h)))"

text \<open>A sequence of calls, each on the holder the previous call left.\<close>

fun try_update_incumbents :: "IncumbentHolder \<Rightarrow> (Solution \<times> SolutionScore) list \<Rightarrow> IncumbentHolder" where
  "try_update_incumbents h [] = h"
| "try_update_incumbents h (c # calls) =
     try_update_incumbents (snd (try_update_incumbent h (fst c) (snd c))) calls"


text \<open>A score, a solution and a holder for the concrete instances below.\<close>

definition example_score :: SolutionScore where
  "example_score =
     \<lparr>objective = 1, total_violation = 1, local_penalty = 10, global_penalty = 100,
      local_augmented_objective = 11, global_augmented_objective = 101, is_feasible = False,
      is_objective_improvable = False, is_constraint_improvable = False\<rparr>"

definition example_solution :: Solution where
  "example_solution =
     \<lparr>variable_value_proxies = [\<lparr>proxy_id = 0, flat_indexed_values = [1, 1]\<rparr>],
      violation_value_proxies = [\<lparr>proxy_id = 0, flat_indexed_values = [1, 0]\<rparr>],
      solution_is_feasible = False\<rparr>"

definition example_holder :: "incumbent_objective \<Rightarrow> IncumbentHolder" where
  "example_holder x =
     \<lparr>m_found_feasible_solution = False,
      m_local_augmented_incumbent_solution = example_solution,
      m_global_augmented_incumbent_solution = example_solution,
      m_feasible_incumbent_solution = example_solution,
      m_local_augmented_incumbent_objective = x,
      m_global_augmented_incumbent_objective = x,
      m_feasible_incumbent_objective = x,
      m_local_augmented_incumbent_score = example_score,
      m_global_augmented_incumbent_score = example_score,
      m_feasible_incumbent_score = example_score\<rparr>"



subsection \<open>Which presented solution an incumbent holds\<close>



section \<open>The outer loop of solve\<close>

text \<open>The options the modelled part of \<open>solve\<close> reads, and its local variables that
  carry the penalty coefficients from one tabu search loop to the next. \<open>double\<close>
  arithmetic is exact real arithmetic in the model; the constant \<open>constant::EPSILON\<close> is
  not among the sources and is a parameter.\<close>

record SolverOption =
  penalty_coefficient_reset_count_threshold :: int
  penalty_coefficient_tightening_rate :: real
  penalty_coefficient_relaxing_rate :: real
  penalty_coefficient_updating_balance :: real
  initial_penalty_coefficient :: real
  is_enabled_grouping_penalty_coefficient :: bool

record PenaltyState =
  not_update_count :: int
  penalty_coefficient_reset_flag :: bool
  local_penalty_coefficient_proxies :: "real ValueProxy list"
  global_penalty_coefficient_proxies :: "real ValueProxy list"

text \<open>The operator \<open>&&\<close> on two \<open>int\<close>s: both are converted to \<open>bool\<close>.\<close>

definition logical_and :: "int \<Rightarrow> int \<Rightarrow> bool" where
  "logical_and a b = (a \<noteq> 0 \<and> b \<noteq> 0)"

text \<open>Lines 583 to 596: the count of the loops without an update.\<close>

definition update_not_update_count :: "SolverOption \<Rightarrow> int \<Rightarrow> PenaltyState \<Rightarrow> PenaltyState" where
  "update_not_update_count master_option update_status st =
     (if logical_and update_status STATUS_GLOBAL_AUGMENTED_INCUMBENT_UPDATE
      then st\<lparr>not_update_count := 0, penalty_coefficient_reset_flag := False\<rparr>
      else (let st1 = st\<lparr>not_update_count := not_update_count st + 1\<rparr>
            in if not_update_count st1 = penalty_coefficient_reset_count_threshold master_option
               then st1\<lparr>penalty_coefficient_reset_flag := True, not_update_count := 0\<rparr>
               else st1\<lparr>penalty_coefficient_reset_flag := False\<rparr>))"

text \<open>Lines 636 to 644: the sum of the violations (named \<open>total_penalty\<close> in the source)
  and the sum of their squares, over all proxies and elements.\<close>

definition total_penalty_of :: "Solution \<Rightarrow> real" where
  "total_penalty_of sol =
     foldl (\<lambda>acc proxy. foldl (\<lambda>a element. a + element) acc (flat_indexed_values proxy))
       0 (violation_value_proxies sol)"

definition total_squared_violation_of :: "Solution \<Rightarrow> real" where
  "total_squared_violation_of sol =
     foldl (\<lambda>acc proxy. foldl (\<lambda>a element. a + element * element) acc (flat_indexed_values proxy))
       0 (violation_value_proxies sol)"

text \<open>Lines 657 to 666: the new value of one coefficient.\<close>

definition tighten_element :: "SolverOption \<Rightarrow> real \<Rightarrow> real \<Rightarrow> real \<Rightarrow> real \<Rightarrow> real \<Rightarrow> real" where
  "tighten_element master_option gap total_penalty total_squared_violation element violation =
     (let balance = penalty_coefficient_updating_balance master_option;
          delta_penalty_constant = max 0 gap / total_penalty;
          delta_penalty_proportional = max 0 gap / total_squared_violation * violation
      in element + penalty_coefficient_tightening_rate master_option
                   * (balance * delta_penalty_constant
                      + (1 - balance) * delta_penalty_proportional))"

text \<open>\<open>violation_value_proxies[id].flat_indexed_values()\<close> for the id of a proxy, and the
  reads \<open>violation_values[flat_index]\<close> for every element of the proxy.\<close>

definition violation_values_of :: "Solution \<Rightarrow> real ValueProxy \<Rightarrow> error + real list" where
  "violation_values_of sol proxy =
     (let id = proxy_id proxy
      in if id < 0 \<or> length (violation_value_proxies sol) \<le> nat id then Inl OutOfRange
         else (let violation_values = flat_indexed_values (violation_value_proxies sol ! nat id)
               in if length violation_values < length (flat_indexed_values proxy)
                  then Inl OutOfRange
                  else Inr (take (length (flat_indexed_values proxy)) violation_values)))"

text \<open>Lines 649 to 687, for one proxy: the coefficients are raised, then all set to their
  maximum if grouping is enabled, then bounded by the initial penalty coefficient.\<close>

definition tighten_proxy :: "SolverOption \<Rightarrow> real \<Rightarrow> Solution \<Rightarrow> real ValueProxy \<Rightarrow> error + real ValueProxy" where
  "tighten_proxy master_option gap sol proxy =
     (case violation_values_of sol proxy of
        Inl e \<Rightarrow> Inl e
      | Inr violation_values \<Rightarrow>
          (let raised = map2 (tighten_element master_option gap (total_penalty_of sol)
                               (total_squared_violation_of sol))
                          (flat_indexed_values proxy) violation_values;
               grouped = (if is_enabled_grouping_penalty_coefficient master_option
                          then map (\<lambda>element. utility_max raised) raised
                          else raised);
               bounded = map (\<lambda>element. min element (initial_penalty_coefficient master_option))
                           grouped
           in Inr (proxy\<lparr>flat_indexed_values := bounded\<rparr>)))"

text \<open>Lines 693 to 708, for one proxy: the coefficients of the satisfied constraints are
  multiplied by the relaxing rate.\<close>

definition relax_proxy :: "real \<Rightarrow> SolverOption \<Rightarrow> Solution \<Rightarrow> real ValueProxy \<Rightarrow> error + real ValueProxy" where
  "relax_proxy EPSILON master_option sol proxy =
     (case violation_values_of sol proxy of
        Inl e \<Rightarrow> Inl e
      | Inr violation_values \<Rightarrow>
          Inr (proxy\<lparr>flat_indexed_values :=
                 map2 (\<lambda>element violation.
                         if violation < EPSILON
                         then element * penalty_coefficient_relaxing_rate master_option
                         else element)
                   (flat_indexed_values proxy) violation_values\<rparr>))"

fun for_each_proxy :: "('a \<Rightarrow> error + 'b) \<Rightarrow> 'a list \<Rightarrow> error + 'b list" where
  "for_each_proxy f [] = Inr []"
| "for_each_proxy f (proxy # proxies) =
     (case f proxy of
        Inl e \<Rightarrow> Inl e
      | Inr proxy' \<Rightarrow>
          (case for_each_proxy f proxies of
             Inl e \<Rightarrow> Inl e
           | Inr proxies' \<Rightarrow> Inr (proxy' # proxies')))"

text \<open>Lines 620 to 709: reset, tighten or relax the local penalty coefficients. The gap
  is the global augmented incumbent objective minus the local augmented incumbent
  objective of the last tabu search.\<close>

definition update_local_penalty_coefficients :: "real \<Rightarrow> SolverOption \<Rightarrow> real \<Rightarrow> Solution \<Rightarrow> PenaltyState \<Rightarrow> error + PenaltyState" where
  "update_local_penalty_coefficients EPSILON master_option gap result_local_solution st =
     (if penalty_coefficient_reset_flag st
      then Inr (st\<lparr>local_penalty_coefficient_proxies := global_penalty_coefficient_proxies st\<rparr>)
      else if gap > EPSILON \<and> \<not> solution_is_feasible result_local_solution
      then (case for_each_proxy (tighten_proxy master_option gap result_local_solution)
                   (local_penalty_coefficient_proxies st) of
              Inl e \<Rightarrow> Inl e
            | Inr proxies \<Rightarrow> Inr (st\<lparr>local_penalty_coefficient_proxies := proxies\<rparr>))
      else (case for_each_proxy (relax_proxy EPSILON master_option result_local_solution)
                   (local_penalty_coefficient_proxies st) of
              Inl e \<Rightarrow> Inl e
            | Inr proxies \<Rightarrow> Inr (st\<lparr>local_penalty_coefficient_proxies := proxies\<rparr>)))"

text \<open>The two parts in the order of one pass through the loop: the status is the one
  \<open>try_update_incumbent\<close> returned for the global augmented incumbent of the tabu search.\<close>

definition penalty_coefficient_step :: "real \<Rightarrow> SolverOption \<Rightarrow> int \<Rightarrow> real \<Rightarrow> Solution \<Rightarrow> PenaltyState \<Rightarrow> error + PenaltyState" where
  "penalty_coefficient_step EPSILON master_option update_status gap result_local_solution st =
     update_local_penalty_coefficients EPSILON master_option gap result_local_solution
       (update_not_update_count master_option update_status st)"





subsection \<open>The solved latch\<close>

text \<open>Modelled from the spec: \<open>Model::is_solved\<close> and \<open>Model::set_is_solved\<close> are not
  among the sources; by the spec (design notes) the model has a single solved latch per
  instance, which the two read and write. The model of a \<open>Model\<close> is the latch and the
  rest of its state.\<close>

record 'm Model =
  m_is_solved :: bool
  m_rest :: 'm

definition is_solved :: "'m Model \<Rightarrow> bool" where
  "is_solved a_model = m_is_solved a_model"

definition set_is_solved :: "'m Model \<Rightarrow> bool \<Rightarrow> 'm Model" where
  "set_is_solved a_model b = a_model\<lparr>m_is_solved := b\<rparr>"

text \<open>Lines 40 to 46 of \<open>solve\<close>; the rest of the function, from the set-up of the model
  to the result, is the parameter \<open>search\<close>, which returns the result or the error it
  throws, and the model as it leaves it.\<close>

definition solve :: "('m Model \<Rightarrow> 'o \<Rightarrow> (error + 'r) \<times> 'm Model) \<Rightarrow> 'm Model \<Rightarrow> 'o \<Rightarrow> (error + 'r) \<times> 'm Model" where
  "solve search a_model a_OPTION =
     (if is_solved a_model then (Inl AlreadySolved, a_model)
      else search (set_is_solved a_model True) a_OPTION)"

section \<open>Incremental evaluation kernel\<close>

text \<open>Modelled from the spec: \<open>Model::evaluate\<close> (both overloads), the expressions and the
  constraints are not among the sources; only the test \<open>TestModel.evaluate\<close> is. The
  model follows the specification (data model and 4.3): a constraint has a sense, an
  enabled flag, a cached constraint value and a cached violation value; a variable has a
  current value, a coefficient in the objective and a coefficient in every constraint;
  an objective or constraint with a callback is opaque and recomputed from the move.
  Constraints are referred to by their position, the weight vectors are indexed by it,
  and \<open>double\<close> arithmetic is exact real arithmetic.\<close>

datatype ConstraintSense = LessEqual | Equal | GreaterEqual

record Constraint =
  constraint_sense :: ConstraintSense
  constraint_is_enabled :: bool
  constraint_value :: real
  violation_value :: real
  constraint_callback :: "(Move \<Rightarrow> real) option"

record EvaluationModel =
  variable_value :: "variable_ref \<Rightarrow> int"
  objective_sensitivity :: "variable_ref \<Rightarrow> real"
  constraint_sensitivity :: "variable_ref \<Rightarrow> nat \<Rightarrow> real"
  objective_value :: real
  objective_callback :: "(Move \<Rightarrow> real) option"
  constraints :: "Constraint list"

text \<open>Modelled from the spec: the violation of a constraint value under a sense.\<close>

definition viol :: "ConstraintSense \<Rightarrow> real \<Rightarrow> real" where
  "viol s v = (case s of LessEqual \<Rightarrow> max 0 v | Equal \<Rightarrow> \<bar>v\<bar> | GreaterEqual \<Rightarrow> max 0 (- v))"

text \<open>Modelled from the spec: the sum over the alterations \<open>(v, v')\<close> of the move of
  \<open>(v' - v) * coefficient(v)\<close>.\<close>

definition alteration_delta :: "EvaluationModel \<Rightarrow> (variable_ref \<Rightarrow> real) \<Rightarrow> Move \<Rightarrow> real" where
  "alteration_delta m coefficient a_MOVE =
     sum_list (map (\<lambda>alteration.
                      (real_of_int (snd alteration)
                       - real_of_int (variable_value m (fst alteration)))
                      * coefficient (fst alteration))
                 (alterations a_MOVE))"

definition new_objective :: "EvaluationModel \<Rightarrow> Move \<Rightarrow> real" where
  "new_objective m a_MOVE =
     (case objective_callback m of
        Some f \<Rightarrow> f a_MOVE
      | None \<Rightarrow> objective_value m + alteration_delta m (objective_sensitivity m) a_MOVE)"

definition new_constraint_value :: "EvaluationModel \<Rightarrow> Move \<Rightarrow> nat \<Rightarrow> real" where
  "new_constraint_value m a_MOVE g =
     (case constraint_callback (constraints m ! g) of
        Some f \<Rightarrow> f a_MOVE
      | None \<Rightarrow> constraint_value (constraints m ! g)
                + alteration_delta m (\<lambda>v. constraint_sensitivity m v g) a_MOVE)"

definition recomputed_violation :: "EvaluationModel \<Rightarrow> Move \<Rightarrow> nat \<Rightarrow> real" where
  "recomputed_violation m a_MOVE g =
     viol (constraint_sense (constraints m ! g)) (new_constraint_value m a_MOVE g)"

text \<open>Modelled from the spec: the new violation of a constraint is recomputed for the
  constraints the move touches (and for every opaque constraint); the others keep their
  cached violation.\<close>

definition new_violation :: "EvaluationModel \<Rightarrow> Move \<Rightarrow> nat \<Rightarrow> real" where
  "new_violation m a_MOVE g =
     (if g \<in> set (related_constraint_ptrs a_MOVE) \<or> constraint_callback (constraints m ! g) \<noteq> None
      then recomputed_violation m a_MOVE g
      else violation_value (constraints m ! g))"

definition enabled_constraints :: "EvaluationModel \<Rightarrow> nat list" where
  "enabled_constraints m =
     filter (\<lambda>g. constraint_is_enabled (constraints m ! g)) [0..<length (constraints m)]"

definition is_linear :: "EvaluationModel \<Rightarrow> bool" where
  "is_linear m =
     (objective_callback m = None \<and> list_all (\<lambda>c. constraint_callback c = None) (constraints m))"

text \<open>The arguments both overloads need: a weight for every constraint, and touched
  constraints that exist.\<close>

definition arguments_in_range :: "EvaluationModel \<Rightarrow> Move \<Rightarrow> real list \<Rightarrow> real list \<Rightarrow> bool" where
  "arguments_in_range m a_MOVE local_weights global_weights =
     (length (constraints m) \<le> length local_weights
      \<and> length (constraints m) \<le> length global_weights
      \<and> list_all (\<lambda>g. g < length (constraints m)) (related_constraint_ptrs a_MOVE))"

text \<open>Modelled from the spec: the full overload \<open>evaluate(move, local_weights,
  global_weights)\<close>.\<close>

definition evaluate :: "EvaluationModel \<Rightarrow> Move \<Rightarrow> real list \<Rightarrow> real list \<Rightarrow> error + SolutionScore" where
  "evaluate m a_MOVE local_weights global_weights =
     (if \<not> arguments_in_range m a_MOVE local_weights global_weights then Inl OutOfRange
      else (let new_obj = new_objective m a_MOVE;
                gs = enabled_constraints m;
                violation = sum_list (map (new_violation m a_MOVE) gs);
                local_pen = sum_list (map (\<lambda>g. local_weights ! g * new_violation m a_MOVE g) gs);
                global_pen = sum_list (map (\<lambda>g. global_weights ! g * new_violation m a_MOVE g) gs)
            in Inr \<lparr>objective = new_obj,
                    total_violation = violation,
                    local_penalty = local_pen,
                    global_penalty = global_pen,
                    local_augmented_objective = new_obj + local_pen,
                    global_augmented_objective = new_obj + global_pen,
                    is_feasible = (violation = 0),
                    is_objective_improvable = (new_obj < objective_value m),
                    is_constraint_improvable =
                      list_ex (\<lambda>g. new_violation m a_MOVE g < violation_value (constraints m ! g))
                        gs\<rparr>))"

text \<open>Modelled from the spec: the companion overload \<open>evaluate(move, score_before,
  local_weights, global_weights)\<close>, which updates \<open>score_before\<close> by the differences of
  the violations of the enabled constraints the move touches; a model with a callback
  is recomputed in full.\<close>

definition evaluate_delta :: "EvaluationModel \<Rightarrow> Move \<Rightarrow> SolutionScore \<Rightarrow> real list \<Rightarrow> real list \<Rightarrow> error + SolutionScore" where
  "evaluate_delta m a_MOVE score_before local_weights global_weights =
     (if \<not> is_linear m then evaluate m a_MOVE local_weights global_weights
      else if \<not> arguments_in_range m a_MOVE local_weights global_weights then Inl OutOfRange
      else (let new_obj = new_objective m a_MOVE;
                touched = filter (\<lambda>g. constraint_is_enabled (constraints m ! g))
                            (related_constraint_ptrs a_MOVE);
                violation_diff = (\<lambda>g. recomputed_violation m a_MOVE g
                                       - violation_value (constraints m ! g));
                violation = total_violation score_before + sum_list (map violation_diff touched);
                local_pen = local_penalty score_before
                            + sum_list (map (\<lambda>g. local_weights ! g * violation_diff g) touched);
                global_pen = global_penalty score_before
                            + sum_list (map (\<lambda>g. global_weights ! g * violation_diff g) touched)
            in Inr \<lparr>objective = new_obj,
                    total_violation = violation,
                    local_penalty = local_pen,
                    global_penalty = global_pen,
                    local_augmented_objective = new_obj + local_pen,
                    global_augmented_objective = new_obj + global_pen,
                    is_feasible = (violation = 0),
                    is_objective_improvable = (new_obj < objective_value m),
                    is_constraint_improvable = list_ex (\<lambda>g. violation_diff g < 0) touched\<rparr>))"

text \<open>The empty move \<open>{}\<close>.\<close>

definition empty_move :: Move where
  "empty_move = \<lparr>alterations = [], related_constraint_ptrs = []\<rparr>"

text \<open>The model, the move and the scores of the second step of the test
  \<open>TestModel.evaluate\<close>: ten binary variables at 1, the objective \<open>\<Sum> i * x[i] + 1\<close>, the
  constraints \<open>\<Sum> x[i] \<le> 5\<close> and \<open>x[0] + x[1] \<le> 1\<close>, the weights 100 and 10000, and the
  move that sets every variable to 0.\<close>

definition test_model :: EvaluationModel where
  "test_model =
     \<lparr>variable_value = (\<lambda>v. 1),
      objective_sensitivity = (\<lambda>v. if fst v = 0 \<and> 0 \<le> snd v \<and> snd v < 10
                                    then real_of_int (snd v) else 0),
      constraint_sensitivity = (\<lambda>v g. if fst v = 0 \<and> 0 \<le> snd v \<and> snd v < 10
                                       \<and> (g = 0 \<or> (g = 1 \<and> snd v < 2))
                                       then 1 else 0),
      objective_value = 46,
      objective_callback = None,
      constraints =
        [\<lparr>constraint_sense = LessEqual, constraint_is_enabled = True, constraint_value = 5,
          violation_value = 5, constraint_callback = None\<rparr>,
         \<lparr>constraint_sense = LessEqual, constraint_is_enabled = True, constraint_value = 1,
          violation_value = 1, constraint_callback = None\<rparr>]\<rparr>"

definition test_move :: Move where
  "test_move =
     \<lparr>alterations = [((0, 0), 0), ((0, 1), 0), ((0, 2), 0), ((0, 3), 0), ((0, 4), 0),
                     ((0, 5), 0), ((0, 6), 0), ((0, 7), 0), ((0, 8), 0), ((0, 9), 0)],
      related_constraint_ptrs = [0, 1]\<rparr>"

definition test_score_before :: SolutionScore where
  "test_score_before =
     \<lparr>objective = 46, total_violation = 6, local_penalty = 600, global_penalty = 60000,
      local_augmented_objective = 646, global_augmented_objective = 60046,
      is_feasible = False, is_objective_improvable = False, is_constraint_improvable = False\<rparr>"

definition test_score_after :: SolutionScore where
  "test_score_after =
     \<lparr>objective = 1, total_violation = 0, local_penalty = 0, global_penalty = 0,
      local_augmented_objective = 1, global_augmented_objective = 1,
      is_feasible = True, is_objective_improvable = True, is_constraint_improvable = True\<rparr>"

section \<open>Verification: flat and multi-dimensional indices\<close>

lemma wrap32_id: "- 2147483648 \<le> x \<Longrightarrow> x < 2147483648 \<Longrightarrow> wrap32 x = x"
  by (simp add: wrap32_def)

lemma size_t_of_int_id: "0 \<le> x \<Longrightarrow> x < 2147483648 \<Longrightarrow> size_t_of_int x = x"
  by (simp add: size_t_of_int_def)

lemma prod_list_pos: "\<forall>s\<in>set ss. 0 < s \<Longrightarrow> 0 < prod_list (ss::int list)"
  by (induction ss) simp_all

lemma prod_list_ge_one: "\<forall>s\<in>set ss. 0 < s \<Longrightarrow> 1 \<le> prod_list (ss::int list)"
  using prod_list_pos [of ss] by simp

lemma mult_le_mult_prod:
  assumes "0 < a" "\<forall>s\<in>set ss. 0 < s"
  shows "a \<le> a * prod_list (ss::int list)"
  using assms prod_list_ge_one [of ss] by (simp add: mult_le_cancel_left1)

lemma foldl_mul32_prod_list:
  "0 < a \<Longrightarrow> \<forall>s\<in>set xs. 0 < s \<Longrightarrow> a * prod_list xs < 2147483648 \<Longrightarrow>
   foldl mul32 a xs = a * prod_list xs"
proof (induction xs arbitrary: a)
  case Nil
  show ?case by simp
next
  case (Cons x xs)
  have x: "0 < x" and xs: "\<forall>s\<in>set xs. 0 < s" using Cons.prems(2) by simp_all
  have ax: "0 < a * x" using Cons.prems(1) x by simp
  have "a * x \<le> a * x * prod_list xs" using mult_le_mult_prod [OF ax xs] .
  then have lt: "a * x < 2147483648" using Cons.prems(3) by (simp add: mult.assoc)
  have m: "mul32 a x = a * x" using ax lt by (simp add: mul32_def wrap32_id)
  have "foldl mul32 (a * x) xs = a * x * prod_list xs"
    using Cons.IH [OF ax xs] Cons.prems(3) by (simp add: mult.assoc)
  then show ?case by (simp add: m mult.assoc)
qed

lemma partial_sum_from_snoc:
  "partial_sum_from f a (xs @ [y]) = partial_sum_from f a xs @ [f (foldl f a xs) y]"
  by (induction xs arbitrary: a) simp_all

lemma rev_partial_sum_from:
  "0 < a \<Longrightarrow> \<forall>s\<in>set ss. 0 < s \<Longrightarrow> a * prod_list ss < 2147483648 \<Longrightarrow>
   rev (a # partial_sum_from mul32 a (rev ss)) = map ((*) a) (prod_list ss # suffix_products ss)"
proof (induction ss)
  case Nil
  show ?case by simp
next
  case (Cons t ts)
  have t: "0 < t" and ts: "\<forall>s\<in>set ts. 0 < s" using Cons.prems(2) by simp_all
  have pts: "0 < prod_list ts" using ts by (rule prod_list_pos)
  have full: "a * prod_list ts * t < 2147483648"
    using Cons.prems(3) by (simp add: mult.commute mult.left_commute)
  have apos: "0 < a * prod_list ts" using Cons.prems(1) pts by simp
  have "a * prod_list ts \<le> a * prod_list ts * t"
    using apos t by (simp add: mult_le_cancel_left1)
  then have part: "a * prod_list ts < 2147483648" using full by linarith
  have f: "foldl mul32 a (rev ts) = a * prod_list ts"
    using foldl_mul32_prod_list [OF Cons.prems(1), of "rev ts"] ts part by simp
  have "0 < a * prod_list ts * t" using apos t by simp
  then have m: "mul32 (a * prod_list ts) t = a * prod_list ts * t"
    using full by (simp add: mul32_def wrap32_id)
  have "rev (a # partial_sum_from mul32 a (rev (t # ts)))
        = (a * prod_list ts * t) # rev (a # partial_sum_from mul32 a (rev ts))"
    by (simp add: partial_sum_from_snoc f m)
  also have "\<dots> = (a * prod_list (t # ts)) # map ((*) a) (prod_list ts # suffix_products ts)"
    using Cons.IH [OF Cons.prems(1) ts part] by (simp add: mult.commute mult.left_commute)
  finally show ?case by simp
qed

lemma one_partial_sum:
  assumes "\<forall>s\<in>set zs. 0 < s \<and> s < 2147483648"
  shows "1 # partial_sum mul32 zs = 1 # partial_sum_from mul32 1 zs"
proof (cases zs)
  case Nil
  then show ?thesis by simp
next
  case (Cons z zs')
  then have "mul32 1 z = z" using assms by (simp add: mul32_def wrap32_id)
  then show ?thesis by (simp add: Cons)
qed

lemma entries_below_prod_list:
  assumes "\<forall>s\<in>set ss. 0 < s" "s \<in> set ss"
  shows "s \<le> prod_list (ss::int list)"
  using assms
proof (induction ss)
  case Nil
  then show ?case by simp
next
  case (Cons t ts)
  have t: "0 < t" and ts: "\<forall>s\<in>set ts. 0 < s" using Cons.prems(1) by simp_all
  have p1: "1 \<le> prod_list ts" using ts by (rule prod_list_ge_one)
  show ?case
  proof (cases "s = t")
    case True
    then show ?thesis using t p1 by (simp add: mult_le_cancel_left1)
  next
    case False
    then have "s \<in> set ts" using Cons.prems(2) by simp
    from Cons.IH [OF ts this] have "s \<le> prod_list ts" .
    moreover have "prod_list ts \<le> t * prod_list ts"
      using t p1 by (simp add: mult_le_cancel_right1)
    ultimately show ?thesis by simp
  qed
qed

lemma compute_strides_suffix_products:
  assumes ne: "shape \<noteq> []" and pos: "\<forall>s\<in>set shape. 0 < s"
    and fits: "prod_list shape < 2147483648"
  shows "compute_strides shape = Inr (suffix_products shape)"
proof -
  from ne obtain s ss where sh: "shape = s # ss" by (cases shape) auto
  have s: "0 < s" and ss: "\<forall>t\<in>set ss. 0 < t" using pos sh by simp_all
  have pss: "0 < prod_list ss" using ss by (rule prod_list_pos)
  have "prod_list ss \<le> s * prod_list ss" using s pss by (simp add: mult_le_cancel_right1)
  then have fss: "prod_list ss < 2147483648" using fits sh by simp
  have rng: "\<forall>t\<in>set (rev ss). 0 < t \<and> t < 2147483648"
  proof
    fix t assume "t \<in> set (rev ss)"
    then have t: "t \<in> set ss" by simp
    from entries_below_prod_list [OF ss t] fss ss t show "0 < t \<and> t < 2147483648" by auto
  qed
  have "rev (1 # partial_sum mul32 (rev ss)) = map ((*) 1) (prod_list ss # suffix_products ss)"
    unfolding one_partial_sum [OF rng]
    using rev_partial_sum_from [of 1 ss] ss fss by simp
  then show ?thesis by (simp add: compute_strides_def sh map_idI)
qed

lemma AbstractMultiArray_nd_fields:
  assumes ctor: "AbstractMultiArray_nd a_ID shape = Inr a"
    and pos: "\<forall>s\<in>set shape. 0 < s"
    and fits: "prod_list shape < 2147483648"
  shows "shape \<noteq> []" "m_strides a = suffix_products shape"
    "m_number_of_dimensions a = length shape" "m_number_of_elements a = prod_list shape"
    "m_max_digits a = length (to_string (utility_max shape))" "m_shape a = shape"
proof -
  show ne: "shape \<noteq> []"
    using ctor by (auto simp: AbstractMultiArray_nd_def compute_strides_def)
  have f: "foldl mul32 1 shape = prod_list shape"
    using foldl_mul32_prod_list [of 1 shape] pos fits by simp
  have z: "size_t_of_int (prod_list shape) = prod_list shape"
    using prod_list_pos [OF pos] fits by (simp add: size_t_of_int_id)
  show "m_strides a = suffix_products shape"
    "m_number_of_dimensions a = length shape" "m_number_of_elements a = prod_list shape"
    "m_max_digits a = length (to_string (utility_max shape))" "m_shape a = shape"
    using ctor by (auto simp: AbstractMultiArray_nd_def
        compute_strides_suffix_products [OF ne pos fits] f z)
qed

lemma sdiv_nonneg: "0 \<le> k \<Longrightarrow> 0 < s \<Longrightarrow> k sdiv s = k div (s::int)"
  by (simp add: signed_divide_int_def sgn_if)

lemma smod_nonneg: "0 \<le> k \<Longrightarrow> 0 < s \<Longrightarrow> k smod s = k mod (s::int)"
  by (simp add: signed_modulo_int_def sgn_if)

lemma sum_list_map2_nonneg:
  "\<forall>x\<in>set xs. 0 \<le> x \<Longrightarrow> \<forall>y\<in>set ys. 0 \<le> y \<Longrightarrow> 0 \<le> sum_list (map2 (*) xs (ys::int list))"
proof (induction xs arbitrary: ys)
  case Nil
  show ?case by simp
next
  case (Cons x xs)
  show ?case
  proof (cases ys)
    case Nil
    then show ?thesis by simp
  next
    case (Cons y ys')
    then have "0 \<le> x * y" "0 \<le> sum_list (map2 (*) xs ys')"
      using Cons.prems Cons.IH [of ys'] by simp_all
    then show ?thesis by (simp add: Cons)
  qed
qed

lemma inner_product_exact:
  "length xs \<le> length ys \<Longrightarrow> \<forall>x\<in>set xs. 0 \<le> x \<Longrightarrow> \<forall>y\<in>set ys. 0 \<le> y \<Longrightarrow> 0 \<le> init \<Longrightarrow>
   init + sum_list (map2 (*) xs ys) < 2147483648 \<Longrightarrow>
   inner_product xs ys init = Inr (init + sum_list (map2 (*) xs ys))"
proof (induction xs ys init rule: inner_product.induct)
  case (1 ys init)
  show ?case by simp
next
  case (2 x xs init)
  then show ?case by simp
next
  case (3 x xs y ys init)
  have x: "0 \<le> x" and y: "0 \<le> y" and xs: "\<forall>x\<in>set xs. 0 \<le> x" and ys: "\<forall>y\<in>set ys. 0 \<le> y"
    using "3.prems" by simp_all
  have xy: "0 \<le> x * y" using x y by simp
  have rest: "0 \<le> sum_list (map2 (*) xs ys)" using xs ys by (rule sum_list_map2_nonneg)
  have tot: "init + x * y + sum_list (map2 (*) xs ys) < 2147483648"
    using "3.prems"(5) by simp
  have m: "mul32 x y = x * y"
    using xy rest tot "3.prems"(4) by (simp add: mul32_def wrap32_id)
  have a: "add32 init (x * y) = init + x * y"
    using xy rest tot "3.prems"(4) by (simp add: add32_def wrap32_id)
  have i0: "0 \<le> init + x * y" using xy "3.prems"(4) by simp
  have len: "length xs \<le> length ys" using "3.prems"(1) by simp
  from "3.IH" [unfolded m a, OF len xs ys i0 tot]
  show ?case by (simp add: m a add.assoc)
qed

lemma loop_round_trip:
  "\<forall>s\<in>set shape. 0 < s \<Longrightarrow> 0 \<le> k \<Longrightarrow> k < prod_list shape \<Longrightarrow>
   prod_list shape < 2147483648 \<Longrightarrow>
   \<exists>idx. multi_dimensional_index_loop (length shape) (suffix_products shape) k = Inr idx
       \<and> length idx = length shape
       \<and> sum_list (map2 (*) idx (suffix_products shape)) = k
       \<and> (\<forall>j<length shape. 0 \<le> idx ! j \<and> idx ! j < shape ! j)"
proof (induction shape arbitrary: k)
  case Nil
  then show ?case by simp
next
  case (Cons s ss)
  let ?P = "prod_list ss"
  have s: "0 < s" and ss: "\<forall>t\<in>set ss. 0 < t" using Cons.prems(1) by simp_all
  have P: "0 < ?P" using ss by (rule prod_list_pos)
  have "?P \<le> s * ?P" using s P by (simp add: mult_le_cancel_right1)
  then have Pf: "?P < 2147483648" using Cons.prems(4) by simp
  have r0: "0 \<le> k mod ?P" and r1: "k mod ?P < ?P" using P by simp_all
  from Cons.IH [OF ss r0 r1 Pf]
  obtain idx where idx:
    "multi_dimensional_index_loop (length ss) (suffix_products ss) (k mod ?P) = Inr idx"
    "length idx = length ss" "sum_list (map2 (*) idx (suffix_products ss)) = k mod ?P"
    "\<forall>j<length ss. 0 \<le> idx ! j \<and> idx ! j < ss ! j" by auto
  have q0: "0 \<le> k div ?P" using Cons.prems(2) P by (simp add: pos_imp_zdiv_nonneg_iff)
  have "k < s * ?P" using Cons.prems(3) by simp
  moreover have qk: "k div ?P * ?P \<le> k"
  proof -
    have "k = k div ?P * ?P + k mod ?P" by simp
    with r0 show ?thesis by linarith
  qed
  ultimately have "k div ?P * ?P < s * ?P" by linarith
  then have q1: "k div ?P < s" using P by (simp add: mult_less_cancel_right)
  have "k div ?P \<le> k div ?P * ?P" using q0 P by (simp add: mult_le_cancel_left1)
  then have "k div ?P \<le> k" using qk by linarith
  then have "k div ?P < 2147483648" using Cons.prems(3,4) by linarith
  then have w: "wrap32 (k div ?P) = k div ?P" using q0 by (simp add: wrap32_id)
  have loop: "multi_dimensional_index_loop (length (s # ss)) (suffix_products (s # ss)) k
        = Inr ((k div ?P) # idx)"
    using idx(1) Cons.prems(2) P by (simp add: sdiv_nonneg smod_nonneg w)
  have ip: "sum_list (map2 (*) ((k div ?P) # idx) (suffix_products (s # ss))) = k"
    using idx(3) by simp
  have bnd: "\<forall>j<length (s # ss). 0 \<le> ((k div ?P) # idx) ! j \<and> ((k div ?P) # idx) ! j < (s # ss) ! j"
  proof (intro allI impI)
    fix j assume "j < length (s # ss)"
    then show "0 \<le> ((k div ?P) # idx) ! j \<and> ((k div ?P) # idx) ! j < (s # ss) ! j"
      using q0 q1 idx(4) by (cases j) simp_all
  qed
  show ?case using loop ip bnd idx(2) by simp
qed

lemma suffix_products_nonneg: "\<forall>s\<in>set shape. 0 < s \<Longrightarrow> \<forall>y\<in>set (suffix_products shape). 0 \<le> y"
proof (induction shape)
  case Nil
  show ?case by simp
next
  case (Cons s ss)
  then have "0 < prod_list ss" by (simp add: prod_list_pos)
  with Cons show ?case by simp
qed

lemma length_suffix_products [simp]: "length (suffix_products shape) = length shape"
  by (induction shape) simp_all

text \<open>The one-dimensional and the scalar constructor build the array the general
  constructor builds from a shape of one entry, so the theorem below covers the three.\<close>

lemma AbstractMultiArray_1d_nd:
  "- 2147483648 \<le> n \<Longrightarrow> n < 2147483648 \<Longrightarrow>
   AbstractMultiArray_1d i n = AbstractMultiArray_nd i [n]"
  by (simp add: AbstractMultiArray_1d_def AbstractMultiArray_nd_def utility_max_def mul32_def
      wrap32_id split: sum.splits)

lemma AbstractMultiArray_scalar_nd: "AbstractMultiArray_scalar i = AbstractMultiArray_nd i [1]"
  by (simp add: AbstractMultiArray_scalar_def AbstractMultiArray_nd_def utility_max_def
      to_string_def digits_of_nat.simps compute_strides_def mul32_def wrap32_def
      size_t_of_int_def split: sum.splits)

text \<open>
  C9 (as amended). For an array built from a shape whose entries are all positive and
  whose product is below \<open>2^31\<close>, and a flat index \<open>k\<close> with
  \<open>0 \<le> k < number_of_elements\<close>, \<open>multi_dimensional_index\<close> returns an index that
  \<open>flat_index\<close> maps back to \<open>k\<close>, and every component of it is non-negative and
  strictly below the shape entry of its dimension.
\<close>

theorem flat_index_multi_dimensional_index_round_trip:
  assumes ctor: "AbstractMultiArray_nd a_ID shape = Inr a"
    and pos: "\<forall>s\<in>set shape. 0 < s"
    and fits: "prod_list shape < 2147483648"
    and k0: "0 \<le> k" and k1: "k < m_number_of_elements a"
  shows "\<exists>idx. multi_dimensional_index a k = Inr idx
            \<and> flat_index a idx = Inr k
            \<and> length idx = length shape
            \<and> (\<forall>j<length shape. 0 \<le> idx ! j \<and> idx ! j < shape ! j)"
proof -
  note a = AbstractMultiArray_nd_fields [OF ctor pos fits]
  have kp: "k < prod_list shape" using k1 a(4) by simp
  from loop_round_trip [OF pos k0 kp fits]
  obtain idx where idx:
    "multi_dimensional_index_loop (length shape) (suffix_products shape) k = Inr idx"
    "length idx = length shape" "sum_list (map2 (*) idx (suffix_products shape)) = k"
    "\<forall>j<length shape. 0 \<le> idx ! j \<and> idx ! j < shape ! j" by blast
  have nn: "\<forall>x\<in>set idx. 0 \<le> x"
    using idx(2,4) by (auto simp: in_set_conv_nth)
  have "inner_product idx (suffix_products shape) 0
        = Inr (0 + sum_list (map2 (*) idx (suffix_products shape)))"
    using nn suffix_products_nonneg [OF pos] idx(2,3) kp fits
    by (intro inner_product_exact) simp_all
  then have "flat_index a idx = Inr k" by (simp add: flat_index_def a idx(3))
  then show ?thesis using idx by (auto simp: multi_dimensional_index_def a)
qed

theorem flat_index_multi_dimensional_index_round_trip_witness:
  "multi_dimensional_index
     \<lparr>m_id = 0, m_number_of_dimensions = 2, m_number_of_elements = 6, m_max_digits = 1,
      m_shape = [2, 3], m_strides = [3, 1]\<rparr> 4 = Inr [1, 1]
   \<and> flat_index
     \<lparr>m_id = 0, m_number_of_dimensions = 2, m_number_of_elements = 6, m_max_digits = 1,
      m_shape = [2, 3], m_strides = [3, 1]\<rparr> [1, 1] = Inr 4"
proof -
  have c: "AbstractMultiArray_nd 0 [2, 3] =
      Inr \<lparr>m_id = 0, m_number_of_dimensions = 2, m_number_of_elements = 6, m_max_digits = 1,
            m_shape = [2, 3], m_strides = [3, 1]\<rparr>"
    by (simp add: AbstractMultiArray_nd_def compute_strides_def to_string_def utility_max_def
        digits_of_nat.simps mul32_def wrap32_def size_t_of_int_def)
  have p: "\<forall>s\<in>set [2, 3 :: int]. 0 < s" by simp
  have f: "prod_list [2, 3 :: int] < 2147483648" by simp
  have m: "multi_dimensional_index
     \<lparr>m_id = 0, m_number_of_dimensions = 2, m_number_of_elements = 6, m_max_digits = 1,
      m_shape = [2, 3], m_strides = [3, 1]\<rparr> 4 = Inr [1, 1]"
    by (simp add: multi_dimensional_index_def numeral_2_eq_2 signed_divide_int_def
        signed_modulo_int_def wrap32_def)
  show ?thesis
    using flat_index_multi_dimensional_index_round_trip [OF c p f, of 4] m by simp
qed

lemma t46341: "to_string 46341 = ''46341''"
  by (simp add: to_string_def digits_of_nat.simps digit_char_def)

text \<open>
  C9 as stated fails when the product of the shape overflows \<open>int\<close>: for the shape
  \<open>[1, 46341, 46341]\<close> the first stride wraps around to a negative number, the number
  of elements becomes a large \<open>std::size_t\<close>, and the flat index \<open>2147483647\<close> below it
  has the negative first component \<open>-1\<close>.
\<close>

theorem index_overflow_counterexample:
  "AbstractMultiArray_nd 0 [1, 46341, 46341]
   = Inr \<lparr>m_id = 0, m_number_of_dimensions = 3, m_number_of_elements = 18446744071562072601,
          m_max_digits = 5, m_shape = [1, 46341, 46341],
          m_strides = [- 2147479015, 46341, 1]\<rparr>
   \<and> multi_dimensional_index
       \<lparr>m_id = 0, m_number_of_dimensions = 3, m_number_of_elements = 18446744071562072601,
        m_max_digits = 5, m_shape = [1, 46341, 46341],
        m_strides = [- 2147479015, 46341, 1]\<rparr> 2147483647
     = Inr [- 1, 0, 4632]"
proof
  show "AbstractMultiArray_nd 0 [1, 46341, 46341]
   = Inr \<lparr>m_id = 0, m_number_of_dimensions = 3, m_number_of_elements = 18446744071562072601,
          m_max_digits = 5, m_shape = [1, 46341, 46341],
          m_strides = [- 2147479015, 46341, 1]\<rparr>"
    by (simp add: AbstractMultiArray_nd_def compute_strides_def utility_max_def t46341
        mul32_def wrap32_def size_t_of_int_def)
  show "multi_dimensional_index
       \<lparr>m_id = 0, m_number_of_dimensions = 3, m_number_of_elements = 18446744071562072601,
        m_max_digits = 5, m_shape = [1, 46341, 46341],
        m_strides = [- 2147479015, 46341, 1]\<rparr> 2147483647
     = Inr [- 1, 0, 4632]"
    by (simp add: multi_dimensional_index_def numeral_3_eq_3 signed_divide_int_def
        signed_modulo_int_def wrap32_def)
qed

section \<open>Verification: memory\<close>

lemma length_set_value [simp]: "length (set_value ps p f v) = length ps"
  by (simp add: set_value_def)

lemma nth_set_value_length [simp]:
  "i < length ps \<Longrightarrow>
   length (flat_indexed_values (set_value ps p f v ! i)) = length (flat_indexed_values (ps ! i))"
  by (cases "i = nat p") (simp_all add: set_value_def)

lemma nth_set_value_id [simp]:
  "i < length ps \<Longrightarrow> proxy_id (set_value ps p f v ! i) = proxy_id (ps ! i)"
  by (cases "i = nat p") (simp_all add: set_value_def)

lemma in_range_set_value [simp]: "in_range (set_value ps p f v) p' f' = in_range ps p' f'"
  by (auto simp: in_range_def)


lemma proxy_shapes_set_value [simp]: "proxy_shapes (set_value ps p f v) = proxy_shapes ps"
  by (simp add: proxy_shapes_def list_eq_iff_nth_eq)







lemma sum_list_update_int:
  "k < length xs \<Longrightarrow> sum_list (xs[k := x]) = sum_list xs - xs ! k + (x::int)"
  by (induction xs arbitrary: k) (auto split: nat.splits)

lemma sum_list_concat_map: "sum_list (concat xss) = sum_list (map sum_list (xss::int list list))"
  by (induction xss) simp_all

lemma sum_list_all_zero: "\<forall>x\<in>set xs. x = (0::int) \<Longrightarrow> sum_list xs = 0"
  by (induction xs) simp_all

lemma sum_list_concat_set_value:
  assumes "in_range ps p f"
  shows "sum_list (concat (map flat_indexed_values (set_value ps p f v)))
         = sum_list (concat (map flat_indexed_values ps)) - get_value ps p f + (v::int)"
proof -
  have p: "nat p < length ps" and f: "nat f < length (flat_indexed_values (ps ! nat p))"
    using assms by (simp_all add: in_range_def)
  have "map (sum_list \<circ> flat_indexed_values) (set_value ps p f v)
        = (map (sum_list \<circ> flat_indexed_values) ps)
            [nat p := sum_list ((flat_indexed_values (ps ! nat p))[nat f := v])]"
    by (simp add: set_value_def map_update)
  then show ?thesis
    using p f by (simp add: sum_list_concat_map sum_list_update_int get_value_def comp_def)
qed

lemma set_concat_set_value:
  "set (concat (map flat_indexed_values (set_value ps p f v)))
   \<subseteq> insert v (set (concat (map flat_indexed_values ps)))"
proof (cases "nat p < length ps")
  case False
  then have "set_value ps p f v = ps" by (simp add: set_value_def list_update_beyond)
  then show ?thesis by auto
next
  case True
  let ?q = "(ps ! nat p)\<lparr>flat_indexed_values := (flat_indexed_values (ps ! nat p))[nat f := v]\<rparr>"
  have m: "ps ! nat p \<in> set ps" using True by simp
  have a: "set (set_value ps p f v) \<subseteq> insert ?q (set ps)"
    unfolding set_value_def by (rule set_update_subset_insert)
  have b: "set (flat_indexed_values ?q) \<subseteq> insert v (set (flat_indexed_values (ps ! nat p)))"
    using set_update_subset_insert [of "flat_indexed_values (ps ! nat p)" "nat f" v] by simp
  show ?thesis
  proof
    fix x assume "x \<in> set (concat (map flat_indexed_values (set_value ps p f v)))"
    then obtain q where q: "q \<in> set (set_value ps p f v)" "x \<in> set (flat_indexed_values q)"
      by auto
    from q(1) a have "q = ?q \<or> q \<in> set ps" by blast
    then show "x \<in> insert v (set (concat (map flat_indexed_values ps)))"
    proof
      assume "q = ?q"
      with q(2) b have "x = v \<or> x \<in> set (flat_indexed_values (ps ! nat p))" by blast
      with m show ?thesis by auto
    next
      assume "q \<in> set ps"
      with q(2) show ?thesis by auto
    qed
  qed
qed

lemma Memory_invariant_setup:
  assumes "length names = length proxies"
  shows "Memory_invariant (Memory_setup names proxies)"
proof -
  have z: "set (concat (map flat_indexed_values
              (generate_variable_parameter_proxies proxies (0::int)))) \<subseteq> {0}"
    by (auto simp: generate_variable_parameter_proxies_def)
  then have "\<forall>c\<in>set (concat (map flat_indexed_values
              (generate_variable_parameter_proxies proxies (0::int)))). c = 0" by blast
  then have s: "sum_list (concat (map flat_indexed_values
              (generate_variable_parameter_proxies proxies (0::int)))) = 0"
    by (rule sum_list_all_zero)
  show ?thesis
    using assms z s
    by (auto simp: Memory_invariant_def Memory_setup_def Memory_initialize_def all_counts_def
        list_all_iff generate_variable_parameter_proxies_def)
qed

lemma Memory_invariant_update_alteration:
  assumes "Memory_invariant M" "update_alteration M v it = Inr M'"
  shows "Memory_invariant M'"
proof -
  let ?p = "proxy_index v" and ?f = "variable_flat_index v"
  have r: "in_range (m_last_update_iterations M) ?p ?f" "in_range (m_update_counts M) ?p ?f"
    using assms(2) by (auto simp: update_alteration_def Let_def split: if_splits)
  have M': "M' = M\<lparr>m_last_update_iterations := set_value (m_last_update_iterations M) ?p ?f it,
           m_update_counts := set_value (m_update_counts M) ?p ?f
              (get_value (m_update_counts M) ?p ?f + 1),
           m_total_update_counts := m_total_update_counts M + 1\<rparr>"
    using assms(2) r by (simp add: update_alteration_def Let_def)
  have nn: "\<forall>c\<in>set (all_counts M). 0 \<le> c"
    using assms(1) by (simp add: Memory_invariant_def list_all_iff)
  have "m_update_counts M ! nat ?p \<in> set (m_update_counts M)"
    and "get_value (m_update_counts M) ?p ?f \<in> set (flat_indexed_values (m_update_counts M ! nat ?p))"
    using r(2) by (simp_all add: in_range_def get_value_def)
  then have "get_value (m_update_counts M) ?p ?f \<in> set (all_counts M)"
    unfolding all_counts_def by auto
  then have g: "0 \<le> get_value (m_update_counts M) ?p ?f" using nn by blast
  have nn': "\<forall>c\<in>set (all_counts M'). 0 \<le> c"
    using set_concat_set_value [of "m_update_counts M" ?p ?f "get_value (m_update_counts M) ?p ?f + 1"]
      nn g by (auto simp: M' all_counts_def)
  have sum': "sum_list (all_counts M') = sum_list (all_counts M) + 1"
    using sum_list_concat_set_value [OF r(2)] by (simp add: M' all_counts_def)
  have sh: "map (\<lambda>p. length (flat_indexed_values p)) (set_value ps p f x)
          = map (\<lambda>p. length (flat_indexed_values p)) ps" for ps :: "int ValueProxy list" and p f x
    by (simp add: list_eq_iff_nth_eq)
  show ?thesis
    using assms(1) nn' sum'
    by (simp add: Memory_invariant_def list_all_iff) (simp add: M' sh)
qed

lemma Memory_invariant_update:
  assumes "Memory_invariant M" "update M a_MOVE it = Inr M'"
  shows "Memory_invariant M'"
proof -
  have "Memory_invariant M \<Longrightarrow> update_loop M alts it = Inr M' \<Longrightarrow> Memory_invariant M'" for alts
  proof (induction alts arbitrary: M)
    case Nil
    then show ?case by simp
  next
    case (Cons alt alts)
    then show ?case
      by (auto split: sum.splits dest: Memory_invariant_update_alteration)
  qed
  then show ?thesis using assms by (simp add: update_def)
qed




subsection \<open>Rounding to double\<close>




lemma pow2_powr: "pow2 e = 2 powr real_of_int e"
proof (cases "0 \<le> e")
  case True
  then have "real_of_int e = real (nat e)" by simp
  then have "2 powr real_of_int e = 2 ^ nat e" by (simp only: powr_realpow)
  then show ?thesis using True by (simp add: pow2_def)
next
  case False
  then have "real_of_int e = - real (nat (- e))" by simp
  then have "2 powr real_of_int e = 1 / 2 ^ nat (- e)"
    by (simp only: powr_minus_divide powr_realpow)
  then show ?thesis using False by (simp add: pow2_def)
qed






lemma ulp_nz [simp]: "ulp x \<noteq> 0"
  by (simp add: ulp_def pow2_powr)

lemma ulp_nonneg [simp]: "0 \<le> ulp x"
  by (simp add: ulp_def pow2_powr)

lemma abs_ulp [simp]: "\<bar>ulp x\<bar> = ulp x"
  by (simp add: ulp_def pow2_powr)












lemma round_double_zero [simp]: "round_double 0 = 0"
  by (simp add: round_double_def)







text \<open>The returned value is not the exact sum in general: for three variables updated once
  each the exact sum is \<open>1 / 3\<close> and the value returned is the \<open>double\<close> next below it.\<close>

lemma bias_rounding_example:
  "bias \<lparr>m_variable_names = [''x''],
         m_last_update_iterations = [\<lparr>proxy_id = 0, flat_indexed_values = [3, 3, 3]\<rparr>],
         m_update_counts = [\<lparr>proxy_id = 0, flat_indexed_values = [1, 1, 1]\<rparr>],
         m_total_update_counts = 3\<rparr> = Inr (6004799503160661 / 18014398509481984)
   \<and> (6004799503160661 / 18014398509481984 :: real) < 1 / 3"
proof -
  have "foldl (bias_element 3) 0 [1, 1, 1] = 6004799503160661 / 18014398509481984"
    by code_simp
  then show ?thesis by (simp add: bias_def bias_proxy_def)
qed




section \<open>Verification: incumbent holder\<close>

lemma objective_le_refl [simp]: "objective_le x x"
  by (cases x) simp_all

lemma objective_le_trans: "objective_le x y \<Longrightarrow> objective_le y z \<Longrightarrow> objective_le x z"
  by (cases x; cases y; cases z) simp_all

lemma less_than_stored_le: "less_than_stored x s \<Longrightarrow> objective_le (Finite x) s"
  by (cases s) simp_all

lemma try_update_incumbent_fields:
  "m_local_augmented_incumbent_objective (snd (try_update_incumbent h s sc))
     = (if less_than_stored (local_augmented_objective sc) (m_local_augmented_incumbent_objective h)
        then Finite (local_augmented_objective sc) else m_local_augmented_incumbent_objective h)"
  "m_global_augmented_incumbent_objective (snd (try_update_incumbent h s sc))
     = (if less_than_stored (global_augmented_objective sc) (m_global_augmented_incumbent_objective h)
        then Finite (global_augmented_objective sc) else m_global_augmented_incumbent_objective h)"
  "m_feasible_incumbent_objective (snd (try_update_incumbent h s sc))
     = (if is_feasible sc \<and> less_than_stored (objective sc) (m_feasible_incumbent_objective h)
        then Finite (objective sc) else m_feasible_incumbent_objective h)"
  "m_found_feasible_solution (snd (try_update_incumbent h s sc))
     = (m_found_feasible_solution h \<or> is_feasible sc)"
  by (simp_all add: try_update_incumbent_def try_update_feasible_def try_update_global_def
      try_update_local_def Let_def)

lemma try_update_incumbent_le:
  "objective_le (m_global_augmented_incumbent_objective (snd (try_update_incumbent h s sc)))
     (m_global_augmented_incumbent_objective h)"
  "objective_le (m_feasible_incumbent_objective (snd (try_update_incumbent h s sc)))
     (m_feasible_incumbent_objective h)"
  by (simp_all add: try_update_incumbent_fields less_than_stored_le)

lemma try_update_incumbents_le:
  "objective_le (m_global_augmented_incumbent_objective (try_update_incumbents h calls))
     (m_global_augmented_incumbent_objective h)
   \<and> objective_le (m_feasible_incumbent_objective (try_update_incumbents h calls))
     (m_feasible_incumbent_objective h)"
proof (induction calls arbitrary: h)
  case Nil
  show ?case by simp
next
  case (Cons c calls)
  show ?case
    using Cons.IH [of "snd (try_update_incumbent h (fst c) (snd c))"]
      try_update_incumbent_le [of h "fst c" "snd c"]
    by (auto intro: objective_le_trans)
qed

lemma try_update_incumbents_append:
  "try_update_incumbents h (xs @ ys) = try_update_incumbents (try_update_incumbents h xs) ys"
  by (induction xs arbitrary: h) simp_all

text \<open>
  C6. Over every sequence of \<open>try_update_incumbent\<close> calls on a holder after
  \<open>initialize\<close>, the global augmented incumbent objective and the feasible incumbent
  objective after a longer sequence are at most the ones after any prefix of it; and one
  call changes a stored objective exactly when the corresponding objective of the score is
  strictly smaller than the stored one (for the feasible incumbent: and the score is
  feasible), the new value then being that objective.
\<close>

theorem incumbent_objectives_non_increasing:
  "objective_le
     (m_global_augmented_incumbent_objective (try_update_incumbents (initialize h) (xs @ ys)))
     (m_global_augmented_incumbent_objective (try_update_incumbents (initialize h) xs))
   \<and> objective_le
     (m_feasible_incumbent_objective (try_update_incumbents (initialize h) (xs @ ys)))
     (m_feasible_incumbent_objective (try_update_incumbents (initialize h) xs))
   \<and> m_global_augmented_incumbent_objective (snd (try_update_incumbent h' s sc))
     = (if less_than_stored (global_augmented_objective sc) (m_global_augmented_incumbent_objective h')
        then Finite (global_augmented_objective sc) else m_global_augmented_incumbent_objective h')
   \<and> m_feasible_incumbent_objective (snd (try_update_incumbent h' s sc))
     = (if is_feasible sc \<and> less_than_stored (objective sc) (m_feasible_incumbent_objective h')
        then Finite (objective sc) else m_feasible_incumbent_objective h')
   \<and> m_local_augmented_incumbent_objective (snd (try_update_incumbent h' s sc))
     = (if less_than_stored (local_augmented_objective sc) (m_local_augmented_incumbent_objective h')
        then Finite (local_augmented_objective sc) else m_local_augmented_incumbent_objective h')"
  using try_update_incumbents_le [of "try_update_incumbents (initialize h) xs" ys]
  by (simp add: try_update_incumbents_append try_update_incumbent_fields)












section \<open>Verification: the solved latch\<close>

text \<open>
  C8. Provided the rest of \<open>solve\<close> never clears the latch, a second call of \<open>solve\<close> on
  the model a first call left fails with \<open>AlreadySolved\<close> and leaves the model as it is;
  and the first call on an unsolved model marks it as solved before the rest of the
  function (the set-up and every search) runs.
\<close>

theorem solve_twice_already_solved:
  assumes "\<And>m opt. is_solved m \<Longrightarrow> is_solved (snd (search m opt))"
  shows "fst (solve search (snd (solve search a_model opt1)) opt2) = Inl AlreadySolved
       \<and> snd (solve search (snd (solve search a_model opt1)) opt2) = snd (solve search a_model opt1)
       \<and> (if is_solved a_model then solve search a_model opt1 = (Inl AlreadySolved, a_model)
          else solve search a_model opt1 = search (set_is_solved a_model True) opt1
               \<and> is_solved (set_is_solved a_model True))"
proof -
  have s: "is_solved (set_is_solved a_model True)"
    by (simp add: is_solved_def set_is_solved_def)
  have "is_solved (snd (solve search a_model opt1))"
    using assms [OF s, of opt1] by (simp add: solve_def)
  then show ?thesis using s by (simp add: solve_def)
qed

theorem solve_twice_already_solved_witness:
  "fst (solve (\<lambda>m opt. (Inr (opt + m_rest m), m\<lparr>m_rest := m_rest m + 1\<rparr>))
         (snd (solve (\<lambda>m opt. (Inr (opt + m_rest m), m\<lparr>m_rest := m_rest m + 1\<rparr>))
                \<lparr>m_is_solved = False, m_rest = (0::nat)\<rparr> (1::nat))) 2)
   = (Inl AlreadySolved :: error + nat)"
proof -
  have "\<And>m opt. is_solved m \<Longrightarrow>
      is_solved (snd ((\<lambda>m opt. (Inr (opt + m_rest m) :: error + nat, m\<lparr>m_rest := m_rest m + 1\<rparr>))
         (m :: nat Model) (opt::nat)))"
    by (simp add: is_solved_def)
  from solve_twice_already_solved [of "\<lambda>m opt. (Inr (opt + m_rest m), m\<lparr>m_rest := m_rest m + 1\<rparr>)",
      OF this, of "\<lparr>m_is_solved = False, m_rest = (0::nat)\<rparr>" 1 2]
  show ?thesis by simp
qed

section \<open>Verification: penalty coefficients\<close>

lemma utility_max_Max: "xs \<noteq> [] \<Longrightarrow> utility_max xs = Max (set xs)"
proof -
  assume "xs \<noteq> []"
  then obtain y ys where xs: "xs = y # ys" by (cases xs) auto
  have "foldl max y ys = fold max ys y"
    by (simp add: foldl_conv_fold max.commute)
  also have "\<dots> = Max (set (y # ys))"
    by (rule Max.set_eq_fold [symmetric])
  finally show ?thesis by (simp add: utility_max_def xs)
qed









lemma try_update_incumbent_status:
  "fst (try_update_incumbent h s sc)
   = (if less_than_stored (local_augmented_objective sc) (m_local_augmented_incumbent_objective h)
      then STATUS_LOCAL_AUGMENTED_INCUMBENT_UPDATE else 0)
   + (if less_than_stored (global_augmented_objective sc) (m_global_augmented_incumbent_objective h)
      then STATUS_GLOBAL_AUGMENTED_INCUMBENT_UPDATE else 0)
   + (if is_feasible sc \<and> less_than_stored (objective sc) (m_feasible_incumbent_objective h)
      then STATUS_FEASIBLE_INCUMBENT_UPDATE else 0)"
  by (simp add: try_update_incumbent_def try_update_feasible_def try_update_global_def
      try_update_local_def Let_def STATUS_NO_UPDATED_def)

lemma status_global_nonzero:
  assumes "less_than_stored (global_augmented_objective sc) (m_global_augmented_incumbent_objective h)"
  shows "logical_and (fst (try_update_incumbent h s sc)) STATUS_GLOBAL_AUGMENTED_INCUMBENT_UPDATE"
  using assms
  by (simp add: try_update_incumbent_status logical_and_def
      STATUS_LOCAL_AUGMENTED_INCUMBENT_UPDATE_def STATUS_GLOBAL_AUGMENTED_INCUMBENT_UPDATE_def
      STATUS_FEASIBLE_INCUMBENT_UPDATE_def)

lemma status_zero_not_global:
  assumes "fst (try_update_incumbent h s sc) = STATUS_NO_UPDATED"
  shows "\<not> less_than_stored (global_augmented_objective sc) (m_global_augmented_incumbent_objective h)"
  using assms
  by (auto simp: try_update_incumbent_status STATUS_NO_UPDATED_def
      STATUS_LOCAL_AUGMENTED_INCUMBENT_UPDATE_def STATUS_GLOBAL_AUGMENTED_INCUMBENT_UPDATE_def
      STATUS_FEASIBLE_INCUMBENT_UPDATE_def split: if_splits)

text \<open>The slip: the status is tested with \<open>&&\<close>, so a status that reports only an update of
  the local augmented incumbent resets the count as well.\<close>

lemma local_only_status_resets_count:
  "update_not_update_count master_option STATUS_LOCAL_AUGMENTED_INCUMBENT_UPDATE st
   = st\<lparr>not_update_count := 0, penalty_coefficient_reset_flag := False\<rparr>"
  by (simp add: update_not_update_count_def logical_and_def
      STATUS_LOCAL_AUGMENTED_INCUMBENT_UPDATE_def STATUS_GLOBAL_AUGMENTED_INCUMBENT_UPDATE_def)

text \<open>
  C2 (as amended). A loop that updates the global augmented incumbent sets the count to
  zero and clears the reset flag. A loop whose update status is 0 (no incumbent updated,
  so the global augmented incumbent is not updated) increments the count; if the
  incremented count equals \<open>penalty_coefficient_reset_count_threshold\<close> the count is set
  back to zero and the reset flag is raised, otherwise the flag is cleared. Whenever the
  flag is raised the count is zero and the local penalty coefficients become the global
  ones, element by element.
\<close>

theorem not_update_count_and_penalty_reset:
  "(less_than_stored (global_augmented_objective sc) (m_global_augmented_incumbent_objective h) \<longrightarrow>
      update_not_update_count master_option (fst (try_update_incumbent h s sc)) st
      = st\<lparr>not_update_count := 0, penalty_coefficient_reset_flag := False\<rparr>)
   \<and> (fst (try_update_incumbent h s sc) = STATUS_NO_UPDATED \<longrightarrow>
        \<not> less_than_stored (global_augmented_objective sc) (m_global_augmented_incumbent_objective h)
      \<and> update_not_update_count master_option (fst (try_update_incumbent h s sc)) st
        = (if not_update_count st + 1 = penalty_coefficient_reset_count_threshold master_option
           then st\<lparr>not_update_count := 0, penalty_coefficient_reset_flag := True\<rparr>
           else st\<lparr>not_update_count := not_update_count st + 1,
                  penalty_coefficient_reset_flag := False\<rparr>))
   \<and> (penalty_coefficient_reset_flag (update_not_update_count master_option update_status st) \<longrightarrow>
        not_update_count (update_not_update_count master_option update_status st) = 0
      \<and> penalty_coefficient_step EPSILON master_option update_status gap sol st
        = Inr ((update_not_update_count master_option update_status st)
                 \<lparr>local_penalty_coefficient_proxies := global_penalty_coefficient_proxies st\<rparr>))"
proof (intro conjI impI)
  assume "less_than_stored (global_augmented_objective sc) (m_global_augmented_incumbent_objective h)"
  from status_global_nonzero [OF this]
  show "update_not_update_count master_option (fst (try_update_incumbent h s sc)) st
      = st\<lparr>not_update_count := 0, penalty_coefficient_reset_flag := False\<rparr>"
    by (simp add: update_not_update_count_def)
next
  assume z: "fst (try_update_incumbent h s sc) = STATUS_NO_UPDATED"
  then show "\<not> less_than_stored (global_augmented_objective sc) (m_global_augmented_incumbent_objective h)"
    by (rule status_zero_not_global)
  show "update_not_update_count master_option (fst (try_update_incumbent h s sc)) st
        = (if not_update_count st + 1 = penalty_coefficient_reset_count_threshold master_option
           then st\<lparr>not_update_count := 0, penalty_coefficient_reset_flag := True\<rparr>
           else st\<lparr>not_update_count := not_update_count st + 1,
                  penalty_coefficient_reset_flag := False\<rparr>)"
    unfolding z by (simp add: update_not_update_count_def logical_and_def STATUS_NO_UPDATED_def Let_def)
next
  assume f: "penalty_coefficient_reset_flag (update_not_update_count master_option update_status st)"
  then show "not_update_count (update_not_update_count master_option update_status st) = 0"
    by (auto simp: update_not_update_count_def Let_def split: if_splits)
  have "global_penalty_coefficient_proxies (update_not_update_count master_option update_status st)
        = global_penalty_coefficient_proxies st"
    by (simp add: update_not_update_count_def Let_def)
  with f show "penalty_coefficient_step EPSILON master_option update_status gap sol st
        = Inr ((update_not_update_count master_option update_status st)
                 \<lparr>local_penalty_coefficient_proxies := global_penalty_coefficient_proxies st\<rparr>)"
    by (simp add: penalty_coefficient_step_def update_local_penalty_coefficients_def)
qed

theorem not_update_count_and_penalty_reset_witness:
  "update_not_update_count
     \<lparr>penalty_coefficient_reset_count_threshold = 3, penalty_coefficient_tightening_rate = 1,
      penalty_coefficient_relaxing_rate = 1 / 2, penalty_coefficient_updating_balance = 1 / 2,
      initial_penalty_coefficient = 100, is_enabled_grouping_penalty_coefficient = False\<rparr>
     (fst (try_update_incumbent (example_holder HUGE_VALF) example_solution example_score))
     \<lparr>not_update_count = 2, penalty_coefficient_reset_flag = False,
      local_penalty_coefficient_proxies = [\<lparr>proxy_id = 0, flat_indexed_values = [10, 10]\<rparr>],
      global_penalty_coefficient_proxies = [\<lparr>proxy_id = 0, flat_indexed_values = [100, 100]\<rparr>]\<rparr>
   = \<lparr>not_update_count = 0, penalty_coefficient_reset_flag = False,
      local_penalty_coefficient_proxies = [\<lparr>proxy_id = 0, flat_indexed_values = [10, 10]\<rparr>],
      global_penalty_coefficient_proxies = [\<lparr>proxy_id = 0, flat_indexed_values = [100, 100]\<rparr>]\<rparr>
   \<and> fst (try_update_incumbent (example_holder (Finite 0)) example_solution example_score)
     = STATUS_NO_UPDATED
   \<and> penalty_coefficient_step (1 / 100000)
     \<lparr>penalty_coefficient_reset_count_threshold = 3, penalty_coefficient_tightening_rate = 1,
      penalty_coefficient_relaxing_rate = 1 / 2, penalty_coefficient_updating_balance = 1 / 2,
      initial_penalty_coefficient = 100, is_enabled_grouping_penalty_coefficient = False\<rparr>
     (fst (try_update_incumbent (example_holder (Finite 0)) example_solution example_score))
     2 example_solution
     \<lparr>not_update_count = 2, penalty_coefficient_reset_flag = False,
      local_penalty_coefficient_proxies = [\<lparr>proxy_id = 0, flat_indexed_values = [10, 10]\<rparr>],
      global_penalty_coefficient_proxies = [\<lparr>proxy_id = 0, flat_indexed_values = [100, 100]\<rparr>]\<rparr>
   = Inr \<lparr>not_update_count = 0, penalty_coefficient_reset_flag = True,
      local_penalty_coefficient_proxies = [\<lparr>proxy_id = 0, flat_indexed_values = [100, 100]\<rparr>],
      global_penalty_coefficient_proxies = [\<lparr>proxy_id = 0, flat_indexed_values = [100, 100]\<rparr>]\<rparr>"
proof -
  let ?opt = "\<lparr>penalty_coefficient_reset_count_threshold = 3, penalty_coefficient_tightening_rate = 1,
      penalty_coefficient_relaxing_rate = 1 / 2, penalty_coefficient_updating_balance = 1 / 2,
      initial_penalty_coefficient = 100, is_enabled_grouping_penalty_coefficient = False\<rparr>"
  let ?st = "\<lparr>not_update_count = 2, penalty_coefficient_reset_flag = False,
      local_penalty_coefficient_proxies = [\<lparr>proxy_id = 0, flat_indexed_values = [10, 10]\<rparr>],
      global_penalty_coefficient_proxies = [\<lparr>proxy_id = 0, flat_indexed_values = [100, 100]\<rparr>]\<rparr>"
  have g: "less_than_stored (global_augmented_objective example_score)
             (m_global_augmented_incumbent_objective (example_holder HUGE_VALF))"
    by (simp add: example_holder_def)
  have z: "fst (try_update_incumbent (example_holder (Finite 0)) example_solution example_score)
           = STATUS_NO_UPDATED"
    by (simp add: try_update_incumbent_status example_holder_def example_score_def
        STATUS_NO_UPDATED_def)
  have f: "penalty_coefficient_reset_flag (update_not_update_count ?opt STATUS_NO_UPDATED ?st)"
    by (simp add: update_not_update_count_def logical_and_def STATUS_NO_UPDATED_def Let_def)
  note a = not_update_count_and_penalty_reset
      [of example_score "example_holder HUGE_VALF" ?opt example_solution ?st
          STATUS_NO_UPDATED "1 / 100000" 2 example_solution]
  note b = not_update_count_and_penalty_reset
      [of example_score "example_holder (Finite 0)" ?opt example_solution ?st
          STATUS_NO_UPDATED "1 / 100000" 2 example_solution]
  show ?thesis
    using a g z b f by simp
qed

text \<open>
  C2 as stated fails in the loop that reaches the threshold: the global augmented
  incumbent is not updated, yet the count goes from 2 to 0, not to 3.
\<close>

theorem not_update_count_counterexample:
  "fst (try_update_incumbent (example_holder (Finite 0)) example_solution example_score)
     = STATUS_NO_UPDATED
   \<and> m_global_augmented_incumbent_objective
       (snd (try_update_incumbent (example_holder (Finite 0)) example_solution example_score))
     = m_global_augmented_incumbent_objective (example_holder (Finite 0))
   \<and> not_update_count
       (update_not_update_count
          \<lparr>penalty_coefficient_reset_count_threshold = 3, penalty_coefficient_tightening_rate = 1,
           penalty_coefficient_relaxing_rate = 1 / 2, penalty_coefficient_updating_balance = 1 / 2,
           initial_penalty_coefficient = 100, is_enabled_grouping_penalty_coefficient = False\<rparr>
          STATUS_NO_UPDATED
          \<lparr>not_update_count = 2, penalty_coefficient_reset_flag = False,
           local_penalty_coefficient_proxies = [], global_penalty_coefficient_proxies = []\<rparr>)
     = 0"
  by (simp add: try_update_incumbent_status try_update_incumbent_fields example_holder_def
      example_score_def STATUS_NO_UPDATED_def update_not_update_count_def logical_and_def Let_def)

section \<open>Verification: unique names\<close>

lemma indices_label_loop_join:
  "indices_label_loop w idx = join_comma (map (format_d w) idx)"
  by (induction w idx rule: indices_label_loop.induct) simp_all

lemma format_d_pad_left: "format_d w i = pad_left CHR '' '' w (to_string i)"
  by (simp add: format_d_def pad_left_def)

lemma length_digits_of_nat_mono:
  "m \<le> n \<Longrightarrow> length (digits_of_nat m) \<le> length (digits_of_nat n)"
proof (induction n arbitrary: m rule: digits_of_nat.induct)
  case (1 n)
  show ?case
  proof (cases "n < 10")
    case True
    with "1.prems" show ?thesis by (simp add: digits_of_nat.simps [of m] digits_of_nat.simps [of n])
  next
    case False
    show ?thesis
    proof (cases "m < 10")
      case True
      with False show ?thesis by (simp add: digits_of_nat.simps [of m] digits_of_nat.simps [of n])
    next
      case m: False
      have "m div 10 \<le> n div 10" using "1.prems" by (rule div_le_mono)
      from "1.IH" [OF False this] False m show ?thesis
        by (simp add: digits_of_nat.simps [of m] digits_of_nat.simps [of n])
    qed
  qed
qed

lemma length_to_string_mono:
  "0 \<le> i \<Longrightarrow> i \<le> m \<Longrightarrow> length (to_string i) \<le> length (to_string m)"
  by (simp add: to_string_def length_digits_of_nat_mono)

lemma pad_left_length: "length s \<le> w \<Longrightarrow> length (pad_left c w s) = w"
  by (simp add: pad_left_def)

lemma indices_label_spec:
  assumes ctor: "AbstractMultiArray_nd a_ID shape = Inr a"
    and pos: "\<forall>s\<in>set shape. 0 < s"
    and fits: "prod_list shape < 2147483648"
    and multi: "m_number_of_elements a \<noteq> 1"
    and k0: "0 \<le> k" and k1: "k < m_number_of_elements a"
  shows "\<exists>idx. multi_dimensional_index a k = Inr idx
            \<and> length idx = length shape
            \<and> fixed_width shape idx
            \<and> indices_label a k = Inr (label_spec CHR '' '' shape idx)"
proof -
  note a = AbstractMultiArray_nd_fields [OF ctor pos fits]
  from loop_round_trip [OF pos k0 _ fits] k1 a(4)
  obtain idx where idx: "multi_dimensional_index a k = Inr idx" "length idx = length shape"
    "\<forall>j<length shape. 0 \<le> idx ! j \<and> idx ! j < shape ! j"
    by (auto simp: multi_dimensional_index_def a)
  have mx: "utility_max shape = Max (set shape)"
    using a(1) by (rule utility_max_Max)
  have w: "length (to_string i) \<le> length (to_string (utility_max shape))" if "i \<in> set idx" for i
  proof -
    from that obtain j where j: "j < length idx" "i = idx ! j" by (auto simp: in_set_conv_nth)
    then have "0 \<le> i" "i < shape ! j" using idx(2,3) by simp_all
    moreover have "shape ! j \<le> Max (set shape)" using j(1) idx(2) by simp
    ultimately show ?thesis using mx by (simp add: length_to_string_mono)
  qed
  have fw: "fixed_width shape idx"
    unfolding fixed_width_def list_all_iff using w by (simp add: pad_left_length)
  have "indices_label a k = Inr (label_spec CHR '' '' shape idx)"
    using multi idx(1)
    by (simp add: indices_label_def label_spec_def indices_label_loop_join a(5)
        format_d_pad_left [abs_def])
  with idx(1,2) fw show ?thesis by blast
qed

lemma setup_unique_name_loop_spec:
  assumes ctor: "AbstractMultiArray_nd a_ID shape = Inr a"
    and pos: "\<forall>s\<in>set shape. 0 < s"
    and fits: "prod_list shape < 2147483648"
    and multi: "m_number_of_elements a \<noteq> 1"
  shows "0 \<le> j \<Longrightarrow> j + int (length names) \<le> m_number_of_elements a \<Longrightarrow>
     \<exists>ns. setup_unique_name_loop a base j names = Inr ns
        \<and> length ns = length names
        \<and> (\<forall>k<length names. \<exists>idx. multi_dimensional_index a (j + int k) = Inr idx
               \<and> length idx = length shape
               \<and> fixed_width shape idx
               \<and> ns ! k = (if names ! k = [] then base @ label_spec CHR '' '' shape idx
                           else names ! k))"
proof (induction names arbitrary: j)
  case Nil
  show ?case by simp
next
  case (Cons n names)
  have j1: "0 \<le> j + 1" "j + 1 + int (length names) \<le> m_number_of_elements a"
    using Cons.prems by simp_all
  from Cons.IH [OF j1] obtain ns where ns:
    "setup_unique_name_loop a base (j + 1) names = Inr ns" "length ns = length names"
    "\<forall>k<length names. \<exists>idx. multi_dimensional_index a (j + 1 + int k) = Inr idx
               \<and> length idx = length shape
               \<and> fixed_width shape idx
               \<and> ns ! k = (if names ! k = [] then base @ label_spec CHR '' '' shape idx
                           else names ! k)"
    by blast
  have "j < m_number_of_elements a" using Cons.prems by simp
  from indices_label_spec [OF ctor pos fits multi Cons.prems(1) this]
  obtain idx where idx: "multi_dimensional_index a j = Inr idx" "length idx = length shape"
    "fixed_width shape idx" "indices_label a j = Inr (label_spec CHR '' '' shape idx)"
    by blast
  let ?n' = "if n = [] then base @ label_spec CHR '' '' shape idx else n"
  have run: "setup_unique_name_loop a base j (n # names) = Inr (?n' # ns)"
    using ns(1) idx(4) by simp
  have el: "\<forall>k<length (n # names). \<exists>idx. multi_dimensional_index a (j + int k) = Inr idx
               \<and> length idx = length shape
               \<and> fixed_width shape idx
               \<and> (?n' # ns) ! k = (if (n # names) ! k = [] then base @ label_spec CHR '' '' shape idx
                           else (n # names) ! k)"
  proof (intro allI impI)
    fix k assume k: "k < length (n # names)"
    show "\<exists>idx. multi_dimensional_index a (j + int k) = Inr idx
               \<and> length idx = length shape
               \<and> fixed_width shape idx
               \<and> (?n' # ns) ! k = (if (n # names) ! k = [] then base @ label_spec CHR '' '' shape idx
                           else (n # names) ! k)"
    proof (cases k)
      case 0
      with idx show ?thesis by simp
    next
      case (Suc k')
      then have "k' < length names" using k by simp
      with ns(3) have "\<exists>idx. multi_dimensional_index a (j + 1 + int k') = Inr idx
               \<and> length idx = length shape
               \<and> fixed_width shape idx
               \<and> ns ! k' = (if names ! k' = [] then base @ label_spec CHR '' '' shape idx
                           else names ! k')" by blast
      moreover have "j + 1 + int k' = j + int k" using Suc by simp
      ultimately show ?thesis using Suc by (simp split del: if_split cong: if_cong)
    qed
  qed
  show ?case using run el ns(2) by simp
qed

text \<open>
  C4 (as amended). After \<open>setup_unique_name\<close>, every element of a multi-element proxy
  (of fewer than \<open>2^31\<close> elements, so that the \<open>int\<close> products of its shape do not wrap
  around) whose name the user has not set has the name of the proxy followed by the label
  \<open>[i]\<close> or \<open>[i, j]\<close> (and so on for more dimensions) of its multi-dimensional index,
  where every index is printed at a fixed width, the number of digits of the largest
  shape entry, and is filled with blanks on the left to that width; a name the user has
  set is kept.
\<close>

theorem setup_unique_name_labels:
  assumes ctor: "AbstractMultiArray_nd a_ID shape = Inr (proxy_array p)"
    and pos: "\<forall>s\<in>set shape. 0 < s"
    and fits: "prod_list shape < 2147483648"
    and multi: "m_number_of_elements (proxy_array p) \<noteq> 1"
    and len: "int (length (element_names p)) = m_number_of_elements (proxy_array p)"
  shows "\<exists>names. setup_unique_name p = Inr (p\<lparr>element_names := names\<rparr>)
     \<and> length names = length (element_names p)
     \<and> (\<forall>k<length (element_names p).
           \<exists>idx. multi_dimensional_index (proxy_array p) (int k) = Inr idx
               \<and> length idx = length shape
               \<and> fixed_width shape idx
               \<and> names ! k = (if element_names p ! k = []
                              then proxy_name p @ label_spec CHR '' '' shape idx
                              else element_names p ! k))"
proof -
  have "(0::int) \<le> 0" "0 + int (length (element_names p)) \<le> m_number_of_elements (proxy_array p)"
    using len by simp_all
  from setup_unique_name_loop_spec [OF ctor pos fits multi this, of "proxy_name p"]
  obtain ns where ns:
    "setup_unique_name_loop (proxy_array p) (proxy_name p) 0 (element_names p) = Inr ns"
    "length ns = length (element_names p)"
    "\<forall>k<length (element_names p).
           \<exists>idx. multi_dimensional_index (proxy_array p) (0 + int k) = Inr idx
               \<and> length idx = length shape
               \<and> fixed_width shape idx
               \<and> ns ! k = (if element_names p ! k = []
                           then proxy_name p @ label_spec CHR '' '' shape idx
                           else element_names p ! k)"
    by blast
  have "setup_unique_name p = Inr (p\<lparr>element_names := ns\<rparr>)"
    by (simp add: setup_unique_name_def ns(1))
  with ns(2,3) show ?thesis by (intro exI [of _ ns]) (simp split del: if_split)
qed

theorem setup_unique_name_labels_witness:
  "setup_unique_name
     \<lparr>proxy_array = \<lparr>m_id = 0, m_number_of_dimensions = 1, m_number_of_elements = 10,
                     m_max_digits = 2, m_shape = [10], m_strides = [1]\<rparr>,
      proxy_name = ''p'',
      element_names = [''_p_0'', [], [], [], [], [], [], [], [], ''_p_9'']\<rparr>
   = Inr \<lparr>proxy_array = \<lparr>m_id = 0, m_number_of_dimensions = 1, m_number_of_elements = 10,
                     m_max_digits = 2, m_shape = [10], m_strides = [1]\<rparr>,
      proxy_name = ''p'',
      element_names = [''_p_0'', ''p[ 1]'', ''p[ 2]'', ''p[ 3]'', ''p[ 4]'', ''p[ 5]'',
                       ''p[ 6]'', ''p[ 7]'', ''p[ 8]'', ''_p_9'']\<rparr>"
proof -
  let ?p = "\<lparr>proxy_array = \<lparr>m_id = 0, m_number_of_dimensions = 1, m_number_of_elements = 10,
                     m_max_digits = 2, m_shape = [10], m_strides = [1]\<rparr>,
      proxy_name = ''p'',
      element_names = [''_p_0'', [], [], [], [], [], [], [], [], ''_p_9'']\<rparr>"
  have c: "AbstractMultiArray_nd 0 [10] = Inr (proxy_array ?p)"
    by (simp add: AbstractMultiArray_nd_def compute_strides_def to_string_def utility_max_def
        digits_of_nat.simps mul32_def wrap32_def size_t_of_int_def)
  have p: "\<forall>s\<in>set [10 :: int]. 0 < s" by simp
  have f: "prod_list [10 :: int] < 2147483648" by simp
  have m: "m_number_of_elements (proxy_array ?p) \<noteq> 1" by simp
  have l: "int (length (element_names ?p)) = m_number_of_elements (proxy_array ?p)" by simp
  from setup_unique_name_labels [OF c p f m l]
  show ?thesis
    by (simp add: setup_unique_name_def indices_label_def multi_dimensional_index_def
        format_d_def to_string_def digits_of_nat.simps digit_char_def wrap32_def)
qed

text \<open>
  C4 as stated fails: the indices are filled with blanks, not with zeros. The second
  element of a proxy \<open>p\<close> of ten elements is named \<open>p[ 1]\<close>, not \<open>p[01]\<close>.
\<close>

theorem zero_padded_label_counterexample:
  "indices_label \<lparr>m_id = 0, m_number_of_dimensions = 1, m_number_of_elements = 10,
                  m_max_digits = 2, m_shape = [10], m_strides = [1]\<rparr> 1 = Inr ''[ 1]''
   \<and> label_spec CHR ''0'' [10] [1] = ''[01]''
   \<and> setup_unique_name
     \<lparr>proxy_array = \<lparr>m_id = 0, m_number_of_dimensions = 1, m_number_of_elements = 10,
                     m_max_digits = 2, m_shape = [10], m_strides = [1]\<rparr>,
      proxy_name = ''p'',
      element_names = [[], [], [], [], [], [], [], [], [], []]\<rparr>
   = Inr \<lparr>proxy_array = \<lparr>m_id = 0, m_number_of_dimensions = 1, m_number_of_elements = 10,
                     m_max_digits = 2, m_shape = [10], m_strides = [1]\<rparr>,
      proxy_name = ''p'',
      element_names = [''p[ 0]'', ''p[ 1]'', ''p[ 2]'', ''p[ 3]'', ''p[ 4]'', ''p[ 5]'',
                       ''p[ 6]'', ''p[ 7]'', ''p[ 8]'', ''p[ 9]'']\<rparr>"
  by (simp add: setup_unique_name_def indices_label_def multi_dimensional_index_def
      format_d_def to_string_def digits_of_nat.simps digit_char_def wrap32_def label_spec_def
      pad_left_def utility_max_def)

text \<open>
  The bound on the number of elements is needed for the fixed width. For the shape
  \<open>[2, 65537, 65535]\<close> the first stride wraps around to \<open>-1\<close>, and the flat index
  \<open>100000\<close> gets a first index of seven characters, at a width of five.
\<close>

lemma t65537: "to_string 65537 = ''65537''"
  by (simp add: to_string_def digits_of_nat.simps digit_char_def)

lemma indices_label_overflow_example:
  "AbstractMultiArray_nd 0 [2, 65537, 65535]
   = Inr \<lparr>m_id = 0, m_number_of_dimensions = 3, m_number_of_elements = 18446744073709551614,
          m_max_digits = 5, m_shape = [2, 65537, 65535], m_strides = [- 1, 65535, 1]\<rparr>
   \<and> indices_label
       \<lparr>m_id = 0, m_number_of_dimensions = 3, m_number_of_elements = 18446744073709551614,
        m_max_digits = 5, m_shape = [2, 65537, 65535], m_strides = [- 1, 65535, 1]\<rparr> 100000
     = Inr ''[-100000,     0,     0]''"
proof
  show "AbstractMultiArray_nd 0 [2, 65537, 65535]
   = Inr \<lparr>m_id = 0, m_number_of_dimensions = 3, m_number_of_elements = 18446744073709551614,
          m_max_digits = 5, m_shape = [2, 65537, 65535], m_strides = [- 1, 65535, 1]\<rparr>"
    by (simp add: AbstractMultiArray_nd_def compute_strides_def utility_max_def t65537
        mul32_def wrap32_def size_t_of_int_def)
  have idx: "multi_dimensional_index
       \<lparr>m_id = 0, m_number_of_dimensions = 3, m_number_of_elements = 18446744073709551614,
        m_max_digits = 5, m_shape = [2, 65537, 65535], m_strides = [- 1, 65535, 1]\<rparr> 100000
     = Inr [- 100000, 0, 0]"
    by (simp add: multi_dimensional_index_def numeral_3_eq_3 signed_divide_int_def
        signed_modulo_int_def wrap32_def)
  have s: "to_string (- 100000) = ''-100000''" "to_string 0 = ''0''"
    by (simp_all add: to_string_def digits_of_nat.simps digit_char_def)
  have f: "format_d 5 (- 100000) = ''-100000''" "format_d 5 0 = ''    0''"
    unfolding format_d_def s by (simp_all add: eval_nat_numeral)
  show "indices_label
       \<lparr>m_id = 0, m_number_of_dimensions = 3, m_number_of_elements = 18446744073709551614,
        m_max_digits = 5, m_shape = [2, 65537, 65535], m_strides = [- 1, 65535, 1]\<rparr> 100000
     = Inr ''[-100000,     0,     0]''"
    by (simp add: indices_label_def idx f)
qed

section \<open>Verification: incremental evaluation\<close>

lemma sum_list_if_split:
  fixes w a b :: "nat \<Rightarrow> real"
  assumes "distinct R" "distinct gs"
  shows "sum_list (map (\<lambda>g. w g * (if g \<in> set R then a g else b g)) gs)
       = sum_list (map (\<lambda>g. w g * b g) gs)
         + sum_list (map (\<lambda>g. w g * (a g - b g)) (filter (\<lambda>g. g \<in> set gs) R))"
proof -
  have "sum_list (map (\<lambda>g. w g * (if g \<in> set R then a g else b g)) gs)
        = (\<Sum>g\<in>set gs. w g * (if g \<in> set R then a g else b g))"
    using assms(2) by (simp add: sum_list_distinct_conv_sum_set)
  also have "\<dots> = (\<Sum>g\<in>set gs. w g * b g + (if g \<in> set R then w g * (a g - b g) else 0))"
    by (rule sum.cong) (simp_all add: algebra_simps)
  also have "\<dots> = (\<Sum>g\<in>set gs. w g * b g)
                  + (\<Sum>g\<in>set gs. if g \<in> set R then w g * (a g - b g) else 0)"
    by (simp add: sum.distrib)
  also have "(\<Sum>g\<in>set gs. if g \<in> set R then w g * (a g - b g) else 0)
             = (\<Sum>g\<in>set gs \<inter> set R. w g * (a g - b g))"
    by (simp add: sum.inter_restrict)
  also have "set gs \<inter> set R = set (filter (\<lambda>g. g \<in> set gs) R)" by auto
  also have "(\<Sum>g\<in>set (filter (\<lambda>g. g \<in> set gs) R). w g * (a g - b g))
             = sum_list (map (\<lambda>g. w g * (a g - b g)) (filter (\<lambda>g. g \<in> set gs) R))"
    using assms(1) by (simp add: sum_list_distinct_conv_sum_set)
  also have "(\<Sum>g\<in>set gs. w g * b g) = sum_list (map (\<lambda>g. w g * b g) gs)"
    using assms(2) by (simp add: sum_list_distinct_conv_sum_set)
  finally show ?thesis .
qed

lemma distinct_enabled_constraints: "distinct (enabled_constraints m)"
  by (simp add: enabled_constraints_def)

lemma touched_filter:
  assumes "list_all (\<lambda>g. g < length (constraints m)) R"
  shows "filter (\<lambda>g. g \<in> set (enabled_constraints m)) R
         = filter (\<lambda>g. constraint_is_enabled (constraints m ! g)) R"
  using assms by (induction R) (auto simp: enabled_constraints_def)

lemma linear_new_violation:
  assumes "is_linear m" "g \<in> set (enabled_constraints m)"
  shows "new_violation m mv g
         = (if g \<in> set (related_constraint_ptrs mv) then recomputed_violation m mv g
            else violation_value (constraints m ! g))"
proof -
  have "g < length (constraints m)" using assms(2) by (simp add: enabled_constraints_def)
  then have "constraint_callback (constraints m ! g) = None"
    using assms(1) by (simp add: is_linear_def list_all_length)
  then show ?thesis by (simp add: new_violation_def)
qed

lemma linear_weighted_violation:
  assumes lin: "is_linear m" and dis: "distinct (related_constraint_ptrs mv)"
    and rng: "list_all (\<lambda>g. g < length (constraints m)) (related_constraint_ptrs mv)"
  shows "sum_list (map (\<lambda>g. w g * new_violation m mv g) (enabled_constraints m))
       = sum_list (map (\<lambda>g. w g * violation_value (constraints m ! g)) (enabled_constraints m))
         + sum_list (map (\<lambda>g. w g * (recomputed_violation m mv g
                                      - violation_value (constraints m ! g)))
                      (filter (\<lambda>g. constraint_is_enabled (constraints m ! g))
                         (related_constraint_ptrs mv)))"
proof -
  have "sum_list (map (\<lambda>g. w g * new_violation m mv g) (enabled_constraints m))
        = sum_list (map (\<lambda>g. w g * (if g \<in> set (related_constraint_ptrs mv)
                                     then recomputed_violation m mv g
                                     else violation_value (constraints m ! g)))
                     (enabled_constraints m))"
    by (rule arg_cong [where f = sum_list], rule map_cong)
       (simp_all add: linear_new_violation [OF lin])
  also have "\<dots> = sum_list (map (\<lambda>g. w g * violation_value (constraints m ! g)) (enabled_constraints m))
         + sum_list (map (\<lambda>g. w g * (recomputed_violation m mv g
                                      - violation_value (constraints m ! g)))
                      (filter (\<lambda>g. g \<in> set (enabled_constraints m))
                         (related_constraint_ptrs mv)))"
    by (rule sum_list_if_split [OF dis distinct_enabled_constraints])
  finally show ?thesis by (simp add: touched_filter [OF rng])
qed

lemma linear_constraint_improvable:
  assumes lin: "is_linear m"
    and rng: "list_all (\<lambda>g. g < length (constraints m)) (related_constraint_ptrs mv)"
  shows "list_ex (\<lambda>g. new_violation m mv g < violation_value (constraints m ! g))
           (enabled_constraints m)
       = list_ex (\<lambda>g. recomputed_violation m mv g - violation_value (constraints m ! g) < 0)
           (filter (\<lambda>g. constraint_is_enabled (constraints m ! g)) (related_constraint_ptrs mv))"
proof -
  have a: "g \<in> set (enabled_constraints m) \<Longrightarrow>
        (new_violation m mv g < violation_value (constraints m ! g))
        = (g \<in> set (related_constraint_ptrs mv)
           \<and> recomputed_violation m mv g - violation_value (constraints m ! g) < 0)" for g
    by (simp add: linear_new_violation [OF lin])
  have b: "g \<in> set (related_constraint_ptrs mv) \<Longrightarrow> constraint_is_enabled (constraints m ! g)
        \<Longrightarrow> g \<in> set (enabled_constraints m)" for g
    using rng by (simp add: enabled_constraints_def list_all_iff)
  have c: "g \<in> set (enabled_constraints m) \<Longrightarrow> constraint_is_enabled (constraints m ! g)" for g
    by (simp add: enabled_constraints_def)
  show ?thesis
    unfolding list_ex_iff using a b c by auto
qed

text \<open>For a move that lists every constraint in which an altered variable has a
  coefficient, recomputing a constraint whose cached violation fits its cached value
  gives the new violation, touched or not.\<close>

lemma new_violation_recomputed:
  assumes lin: "constraint_callback (constraints m ! g) = None"
    and parity: "violation_value (constraints m ! g)
                 = viol (constraint_sense (constraints m ! g)) (constraint_value (constraints m ! g))"
    and valid: "\<forall>alteration\<in>set (alterations a_MOVE).
                  constraint_sensitivity m (fst alteration) g \<noteq> 0
                  \<longrightarrow> g \<in> set (related_constraint_ptrs a_MOVE)"
  shows "new_violation m a_MOVE g = recomputed_violation m a_MOVE g"
proof (cases "g \<in> set (related_constraint_ptrs a_MOVE)")
  case True
  then show ?thesis by (simp add: new_violation_def)
next
  case False
  with valid have z: "\<forall>alteration\<in>set (alterations a_MOVE).
      constraint_sensitivity m (fst alteration) g = 0" by blast
  have "\<forall>alteration\<in>set alts. constraint_sensitivity m (fst alteration) g = 0 \<Longrightarrow>
        sum_list (map (\<lambda>alteration.
                      (real_of_int (snd alteration)
                       - real_of_int (variable_value m (fst alteration)))
                      * constraint_sensitivity m (fst alteration) g) alts) = 0" for alts
    by (induction alts) simp_all
  from this [OF z]
  have "alteration_delta m (\<lambda>v. constraint_sensitivity m v g) a_MOVE = 0"
    by (simp add: alteration_delta_def)
  then show ?thesis
    using False lin parity
    by (simp add: new_violation_def recomputed_violation_def new_constraint_value_def)
qed

lemma evaluate_empty_move_linear:
  assumes lin: "is_linear m" and before: "evaluate m empty_move lw gw = Inr score_before"
  shows "length (constraints m) \<le> length lw" "length (constraints m) \<le> length gw"
    "total_violation score_before
       = sum_list (map (\<lambda>g. violation_value (constraints m ! g)) (enabled_constraints m))"
    "local_penalty score_before
       = sum_list (map (\<lambda>g. lw ! g * violation_value (constraints m ! g)) (enabled_constraints m))"
    "global_penalty score_before
       = sum_list (map (\<lambda>g. gw ! g * violation_value (constraints m ! g)) (enabled_constraints m))"
proof -
  have rng: "arguments_in_range m empty_move lw gw"
    using before by (auto simp: evaluate_def split: if_splits)
  then show "length (constraints m) \<le> length lw" "length (constraints m) \<le> length gw"
    by (simp_all add: arguments_in_range_def)
  have nv: "map (\<lambda>g. w g * new_violation m empty_move g) (enabled_constraints m)
          = map (\<lambda>g. w g * violation_value (constraints m ! g)) (enabled_constraints m)"
    for w :: "nat \<Rightarrow> real"
    by (rule map_cong) (simp_all add: linear_new_violation [OF lin] empty_move_def)
  have nv1: "map (new_violation m empty_move) (enabled_constraints m)
          = map (\<lambda>g. violation_value (constraints m ! g)) (enabled_constraints m)"
    using nv [of "\<lambda>g. 1"] by simp
  have sb: "score_before =
      \<lparr>objective = new_objective m empty_move,
       total_violation = sum_list (map (new_violation m empty_move) (enabled_constraints m)),
       local_penalty = sum_list (map (\<lambda>g. lw ! g * new_violation m empty_move g) (enabled_constraints m)),
       global_penalty = sum_list (map (\<lambda>g. gw ! g * new_violation m empty_move g) (enabled_constraints m)),
       local_augmented_objective = new_objective m empty_move
          + sum_list (map (\<lambda>g. lw ! g * new_violation m empty_move g) (enabled_constraints m)),
       global_augmented_objective = new_objective m empty_move
          + sum_list (map (\<lambda>g. gw ! g * new_violation m empty_move g) (enabled_constraints m)),
       is_feasible = (sum_list (map (new_violation m empty_move) (enabled_constraints m)) = 0),
       is_objective_improvable = (new_objective m empty_move < objective_value m),
       is_constraint_improvable =
          list_ex (\<lambda>g. new_violation m empty_move g < violation_value (constraints m ! g))
            (enabled_constraints m)\<rparr>"
    using before rng by (simp add: evaluate_def Let_def)
  show "total_violation score_before
       = sum_list (map (\<lambda>g. violation_value (constraints m ! g)) (enabled_constraints m))"
    by (subst sb) (simp add: nv1)
  show "local_penalty score_before
       = sum_list (map (\<lambda>g. lw ! g * violation_value (constraints m ! g)) (enabled_constraints m))"
    by (subst sb) (simp add: nv)
  show "global_penalty score_before
       = sum_list (map (\<lambda>g. gw ! g * violation_value (constraints m ! g)) (enabled_constraints m))"
    by (subst sb) (simp add: nv)
qed

text \<open>
  C1. For every move whose touched constraints exist and are listed once, and all weight
  vectors that have a weight for every constraint, the overload of \<open>evaluate\<close> that
  updates \<open>score_before\<close>, the score of the empty move under the same weights, returns
  the score the full overload returns: the nine fields agree.
\<close>

theorem evaluate_delta_agrees_with_evaluate:
  assumes before: "evaluate m empty_move local_weights global_weights = Inr score_before"
    and dis: "distinct (related_constraint_ptrs a_MOVE)"
    and rng: "list_all (\<lambda>g. g < length (constraints m)) (related_constraint_ptrs a_MOVE)"
  shows "\<exists>score. evaluate m a_MOVE local_weights global_weights = Inr score
               \<and> evaluate_delta m a_MOVE score_before local_weights global_weights = Inr score"
proof -
  have rng0: "arguments_in_range m empty_move local_weights global_weights"
    using before by (auto simp: evaluate_def split: if_splits)
  then have ar: "arguments_in_range m a_MOVE local_weights global_weights"
    using rng by (simp add: arguments_in_range_def)
  then obtain score where full: "evaluate m a_MOVE local_weights global_weights = Inr score"
    by (simp add: evaluate_def Let_def)
  show ?thesis
  proof (cases "is_linear m")
    case False
    then show ?thesis using full by (simp add: evaluate_delta_def)
  next
    case True
    note e = evaluate_empty_move_linear [OF True before]
    have tv: "sum_list (map (new_violation m a_MOVE) (enabled_constraints m))
        = total_violation score_before
          + sum_list (map (\<lambda>g. recomputed_violation m a_MOVE g - violation_value (constraints m ! g))
               (filter (\<lambda>g. constraint_is_enabled (constraints m ! g))
                  (related_constraint_ptrs a_MOVE)))"
      using linear_weighted_violation [OF True dis rng, of "\<lambda>g. 1"] by (simp add: e(3))
    have lp: "sum_list (map (\<lambda>g. local_weights ! g * new_violation m a_MOVE g) (enabled_constraints m))
        = local_penalty score_before
          + sum_list (map (\<lambda>g. local_weights ! g
                              * (recomputed_violation m a_MOVE g - violation_value (constraints m ! g)))
               (filter (\<lambda>g. constraint_is_enabled (constraints m ! g))
                  (related_constraint_ptrs a_MOVE)))"
      using linear_weighted_violation [OF True dis rng, of "\<lambda>g. local_weights ! g"] by (simp add: e(4))
    have gp: "sum_list (map (\<lambda>g. global_weights ! g * new_violation m a_MOVE g) (enabled_constraints m))
        = global_penalty score_before
          + sum_list (map (\<lambda>g. global_weights ! g
                              * (recomputed_violation m a_MOVE g - violation_value (constraints m ! g)))
               (filter (\<lambda>g. constraint_is_enabled (constraints m ! g))
                  (related_constraint_ptrs a_MOVE)))"
      using linear_weighted_violation [OF True dis rng, of "\<lambda>g. global_weights ! g"] by (simp add: e(5))
    note ci = linear_constraint_improvable [OF True rng]
    have "evaluate_delta m a_MOVE score_before local_weights global_weights
          = evaluate m a_MOVE local_weights global_weights"
      using True ar by (simp add: evaluate_delta_def evaluate_def Let_def tv lp gp ci)
    with full show ?thesis by simp
  qed
qed

text \<open>The scores the test expects are the scores of the model.\<close>

lemma test_evaluate_before:
  "evaluate test_model empty_move [100, 100] [10000, 10000] = Inr test_score_before"
  by (simp add: evaluate_def arguments_in_range_def empty_move_def test_model_def
      enabled_constraints_def new_violation_def new_objective_def alteration_delta_def
      test_score_before_def Let_def upt_rec)

lemma test_evaluate_after:
  "evaluate test_model test_move [100, 100] [10000, 10000] = Inr test_score_after"
  by (simp add: evaluate_def arguments_in_range_def test_move_def test_model_def
      enabled_constraints_def new_violation_def recomputed_violation_def new_constraint_value_def
      new_objective_def alteration_delta_def viol_def
      test_score_after_def Let_def upt_rec)

theorem evaluate_delta_agrees_with_evaluate_witness:
  "evaluate test_model test_move [100, 100] [10000, 10000] = Inr test_score_after
   \<and> evaluate_delta test_model test_move test_score_before [100, 100] [10000, 10000]
     = Inr test_score_after"
proof -
  have d: "distinct (related_constraint_ptrs test_move)" by (simp add: test_move_def)
  have r: "list_all (\<lambda>g. g < length (constraints test_model)) (related_constraint_ptrs test_move)"
    by (simp add: test_move_def test_model_def)
  from evaluate_delta_agrees_with_evaluate [OF test_evaluate_before d r]
  show ?thesis by (simp add: test_evaluate_after)
qed

end
